theory Spec2Isabelle
  imports Main "HOL-Library.Word"
begin

unbundle bit_operations_syntax

section \<open>Values of the runtime\<close>

text \<open>
  A buffer is a list of bytes. A JavaScript string is a list of UTF-16 code units, which
  is what \<^verbatim>\<open>includes\<close>, \<^verbatim>\<open>split\<close> and \<^verbatim>\<open>===\<close> work on. A value that may be
  \<^verbatim>\<open>undefined\<close> or \<^verbatim>\<open>null\<close> is an option, with \<open>None\<close> for the missing value.
\<close>

type_synonym byte = "8 word"
type_synonym bytes = "8 word list"
type_synonym jsstring = "16 word list"

definition js :: "string \<Rightarrow> jsstring" where
  \<comment> \<open>An ASCII literal of the source as code units.\<close>
  "js s = map of_char s"

definition truthy :: "jsstring option \<Rightarrow> bool" where
  \<comment> \<open>\<^verbatim>\<open>x ? .. : ..\<close> and \<^verbatim>\<open>!x\<close> on a string, \<^verbatim>\<open>null\<close> or \<^verbatim>\<open>undefined\<close>.\<close>
  "truthy v = (case v of None \<Rightarrow> False | Some s \<Rightarrow> s \<noteq> [])"

definition js_or :: "jsstring option \<Rightarrow> jsstring option \<Rightarrow> jsstring option" where
  \<comment> \<open>\<^verbatim>\<open>a || b\<close>\<close>
  "js_or a b = (if truthy a then a else b)"

datatype js_error =
    ConfigError          \<comment> \<open>\<^verbatim>\<open>new Error\<close> of encrypt and decrypt: no encryption key configured\<close>
  | TypeError            \<comment> \<open>an argument of the wrong type\<close>
  | RangeError           \<comment> \<open>\<^verbatim>\<open>timingSafeEqual\<close> on buffers of different length\<close>
  | InvalidIV            \<comment> \<open>\<^verbatim>\<open>createDecipheriv\<close> with an IV that is not one block long\<close>
  | InvalidArgValue      \<comment> \<open>\<^verbatim>\<open>update\<close> on hexadecimal text of odd length\<close>
  | WrongFinalBlockLength \<comment> \<open>\<^verbatim>\<open>final\<close> on data that is not a whole number of blocks\<close>
  | BadDecrypt           \<comment> \<open>\<^verbatim>\<open>final\<close> on a last block with invalid padding\<close>

record env =
  DATA_ENCRYPTION_KEY :: "jsstring option"
  ADMIN_TOKEN :: "jsstring option"
  DB_PASSWORD :: "jsstring option"

section \<open>Encodings of the runtime library\<close>

subsection \<open>UTF-8\<close>

definition replacement :: bytes where
  \<comment> \<open>U+FFFD in UTF-8\<close>
  "replacement = [0xEF, 0xBF, 0xBD]"

definition is_high_surrogate :: "16 word \<Rightarrow> bool" where
  "is_high_surrogate c = (0xD800 \<le> unat c \<and> unat c < 0xDC00)"

definition is_low_surrogate :: "16 word \<Rightarrow> bool" where
  "is_low_surrogate c = (0xDC00 \<le> unat c \<and> unat c < 0xE000)"

definition utf8_of_pair :: "16 word \<Rightarrow> 16 word \<Rightarrow> bytes" where
  \<comment> \<open>the four bytes of the code point of a surrogate pair\<close>
  "utf8_of_pair c d =
     (let n = 0x10000 + (unat c - 0xD800) * 0x400 + (unat d - 0xDC00)
      in [of_nat (0xF0 + n div 0x40000), of_nat (0x80 + n div 0x1000 mod 0x40),
          of_nat (0x80 + n div 0x40 mod 0x40), of_nat (0x80 + n mod 0x40)])"

fun utf8_encode :: "jsstring \<Rightarrow> bytes" where
  \<comment> \<open>a string written with the encoding \<^verbatim>\<open>'utf8'\<close>; an unpaired surrogate becomes U+FFFD\<close>
  "utf8_encode [] = []"
| "utf8_encode (c # cs) =
     (if unat c < 0x80 then of_nat (unat c) # utf8_encode cs
      else if unat c < 0x800 then
        of_nat (0xC0 + unat c div 0x40) # of_nat (0x80 + unat c mod 0x40) # utf8_encode cs
      else if is_high_surrogate c then
        (case cs of
           [] \<Rightarrow> replacement
         | d # ds \<Rightarrow>
             if is_low_surrogate d then utf8_of_pair c d @ utf8_encode ds
             else replacement @ utf8_encode cs)
      else if is_low_surrogate c then replacement @ utf8_encode cs
      else of_nat (0xE0 + unat c div 0x1000) # of_nat (0x80 + unat c div 0x40 mod 0x40)
             # of_nat (0x80 + unat c mod 0x40) # utf8_encode cs)"

definition in_range :: "nat \<Rightarrow> nat \<Rightarrow> byte \<Rightarrow> bool" where
  "in_range lo hi b = (lo \<le> unat b \<and> unat b \<le> hi)"

definition tail6 :: "byte \<Rightarrow> nat" where
  \<comment> \<open>the six payload bits of a continuation byte\<close>
  "tail6 b = unat b mod 0x40"

definition second_lo :: "byte \<Rightarrow> nat" where
  \<comment> \<open>lower bound of the byte after a lead byte (no overlong forms)\<close>
  "second_lo b = (if b = 0xE0 then 0xA0 else if b = 0xF0 then 0x90 else 0x80)"

definition second_hi :: "byte \<Rightarrow> nat" where
  \<comment> \<open>upper bound of the byte after a lead byte (no surrogates, nothing above U+10FFFF)\<close>
  "second_hi b = (if b = 0xED then 0x9F else if b = 0xF4 then 0x8F else 0xBF)"

definition units_of_codepoint :: "nat \<Rightarrow> jsstring" where
  \<comment> \<open>a code point as code units: itself in the basic plane, a surrogate pair above\<close>
  "units_of_codepoint n =
     (if n < 0x10000 then [of_nat n]
      else [of_nat (0xD800 + (n - 0x10000) div 0x400), of_nat (0xDC00 + (n - 0x10000) mod 0x400)])"

fun utf8_decode :: "bytes \<Rightarrow> jsstring" where
  \<comment> \<open>bytes read with the encoding \<^verbatim>\<open>'utf8'\<close>; each ill-formed part becomes U+FFFD and
      decoding goes on at the byte that broke the sequence\<close>
  "utf8_decode [] = []"
| "utf8_decode (b # bs) =
     (if unat b < 0x80 then of_nat (unat b) # utf8_decode bs
      else if in_range 0xC2 0xDF b then
        (case bs of
           [] \<Rightarrow> [0xFFFD]
         | c1 # r1 \<Rightarrow>
             if in_range 0x80 0xBF c1
             then of_nat (unat b mod 0x20 * 0x40 + tail6 c1) # utf8_decode r1
             else 0xFFFD # utf8_decode bs)
      else if in_range 0xE0 0xEF b then
        (case bs of
           [] \<Rightarrow> [0xFFFD]
         | c1 # r1 \<Rightarrow>
             if in_range (second_lo b) (second_hi b) c1 then
               (case r1 of
                  [] \<Rightarrow> [0xFFFD]
                | c2 # r2 \<Rightarrow>
                    if in_range 0x80 0xBF c2
                    then of_nat (unat b mod 0x10 * 0x1000 + tail6 c1 * 0x40 + tail6 c2)
                           # utf8_decode r2
                    else 0xFFFD # utf8_decode r1)
             else 0xFFFD # utf8_decode bs)
      else if in_range 0xF0 0xF4 b then
        (case bs of
           [] \<Rightarrow> [0xFFFD]
         | c1 # r1 \<Rightarrow>
             if in_range (second_lo b) (second_hi b) c1 then
               (case r1 of
                  [] \<Rightarrow> [0xFFFD]
                | c2 # r2 \<Rightarrow>
                    if in_range 0x80 0xBF c2 then
                      (case r2 of
                         [] \<Rightarrow> [0xFFFD]
                       | c3 # r3 \<Rightarrow>
                           if in_range 0x80 0xBF c3
                           then units_of_codepoint
                                  (unat b mod 0x08 * 0x40000 + tail6 c1 * 0x1000
                                   + tail6 c2 * 0x40 + tail6 c3) @ utf8_decode r3
                           else 0xFFFD # utf8_decode r2)
                    else 0xFFFD # utf8_decode r1)
             else 0xFFFD # utf8_decode bs)
      else 0xFFFD # utf8_decode bs)"

subsection \<open>Hexadecimal\<close>

definition hex_digit :: "nat \<Rightarrow> 16 word" where
  \<comment> \<open>\<^verbatim>\<open>0-9a-f\<close>\<close>
  "hex_digit n = (if n < 10 then of_nat (0x30 + n) else of_nat (0x57 + n))"

definition hex_encode :: "bytes \<Rightarrow> jsstring" where
  \<comment> \<open>\<^verbatim>\<open>buf.toString('hex')\<close>\<close>
  "hex_encode bs = concat (map (\<lambda>b. [hex_digit (unat b div 16), hex_digit (unat b mod 16)]) bs)"

definition low_byte :: "16 word \<Rightarrow> nat" where
  \<comment> \<open>what the decoder of hexadecimal text reads of a code unit: its low eight bits\<close>
  "low_byte c = unat c mod 0x100"

definition unhex :: "16 word \<Rightarrow> nat option" where
  "unhex c =
     (if 0x30 \<le> low_byte c \<and> low_byte c \<le> 0x39 then Some (low_byte c - 0x30)
      else if 0x61 \<le> low_byte c \<and> low_byte c \<le> 0x66 then Some (low_byte c - 0x57)
      else if 0x41 \<le> low_byte c \<and> low_byte c \<le> 0x46 then Some (low_byte c - 0x37)
      else None)"

fun hex_decode :: "jsstring \<Rightarrow> bytes" where
  \<comment> \<open>\<^verbatim>\<open>Buffer.from(s, 'hex')\<close>: never fails, the data is truncated at the first pair that
      is not two hexadecimal digits and at a single trailing digit; of a code unit above
      \<open>0xFF\<close> the low byte is read\<close>
  "hex_decode (a # b # cs) =
     (case unhex a of
        None \<Rightarrow> []
      | Some h \<Rightarrow> (case unhex b of None \<Rightarrow> [] | Some l \<Rightarrow> of_nat (16 * h + l) # hex_decode cs))"
| "hex_decode _ = []"

subsection \<open>Base64\<close>

definition base64_char :: "nat \<Rightarrow> 16 word" where
  \<comment> \<open>\<^verbatim>\<open>A-Z a-z 0-9 + /\<close>\<close>
  "base64_char n =
     (if n < 26 then of_nat (0x41 + n)
      else if n < 52 then of_nat (0x61 + (n - 26))
      else if n < 62 then of_nat (0x30 + (n - 52))
      else if n = 62 then 0x2B else 0x2F)"

definition pad_char :: "16 word" where
  \<comment> \<open>\<^verbatim>\<open>=\<close>\<close>
  "pad_char = 0x3D"

fun base64_encode :: "bytes \<Rightarrow> jsstring" where
  \<comment> \<open>\<^verbatim>\<open>digest('base64')\<close>: the standard alphabet, padded to groups of four\<close>
  "base64_encode [] = []"
| "base64_encode [a] =
     [base64_char (unat a div 4), base64_char (unat a mod 4 * 16), pad_char, pad_char]"
| "base64_encode [a, b] =
     [base64_char (unat a div 4), base64_char (unat a mod 4 * 16 + unat b div 16),
      base64_char (unat b mod 16 * 4), pad_char]"
| "base64_encode (a # b # c # r) =
     [base64_char (unat a div 4), base64_char (unat a mod 4 * 16 + unat b div 16),
      base64_char (unat b mod 16 * 4 + unat c div 64), base64_char (unat c mod 64)]
     @ base64_encode r"

subsection \<open>Numbers in a template literal\<close>

function decimal :: "nat \<Rightarrow> jsstring" where
  "decimal n = (if n < 10 then [of_nat (0x30 + n)] else decimal (n div 10) @ [of_nat (0x30 + n mod 10)])"
  by pat_completeness auto
termination
  by (relation "measure id") auto

declare decimal.simps [simp del]

definition safe_integer :: "int \<Rightarrow> bool" where
  \<comment> \<open>\<^verbatim>\<open>Number.isSafeInteger\<close>: an integer a number holds exactly\<close>
  "safe_integer n = (- (2 ^ 53) < n \<and> n < 2 ^ 53)"

subsection \<open>Splitting and joining\<close>

definition colon :: "16 word" where
  "colon = 0x3A"

fun split_on :: "'a \<Rightarrow> 'a list \<Rightarrow> 'a list list" where
  \<comment> \<open>\<^verbatim>\<open>s.split(sep)\<close> for a separator of one code unit: always at least one part\<close>
  "split_on sep [] = [[]]"
| "split_on sep (c # cs) =
     (if c = sep then [] # split_on sep cs
      else (case split_on sep cs of [] \<Rightarrow> [[c]] | p # ps \<Rightarrow> (c # p) # ps))"

fun join :: "'a \<Rightarrow> 'a list list \<Rightarrow> 'a list" where
  \<comment> \<open>\<^verbatim>\<open>parts.join(sep)\<close>\<close>
  "join sep [] = []"
| "join sep [p] = p"
| "join sep (p # q # ps) = p @ sep # join sep (q # ps)"

section \<open>The library of the runtime\<close>

text \<open>
  The hash, the keyed hash, the block cipher, the decoder of base64 text and the text of
  a number beyond the safe integers belong to the runtime, not to the repository: the
  model takes them as a parameter. The decoder returns a buffer for every string. The mode of operation
  (\<^verbatim>\<open>aes-256-cbc\<close>: cipher block chaining with PKCS#7 padding, blocks of 16 bytes) is
  written out, with the faults of a decipher.
\<close>

record node_lib =
  sha256 :: "bytes \<Rightarrow> bytes"
  hmac_sha256 :: "bytes \<Rightarrow> bytes \<Rightarrow> bytes"  \<comment> \<open>key, then message\<close>
  aes256_encrypt_block :: "bytes \<Rightarrow> bytes \<Rightarrow> bytes"  \<comment> \<open>key, then block\<close>
  aes256_decrypt_block :: "bytes \<Rightarrow> bytes \<Rightarrow> bytes"
  base64_decode :: "jsstring \<Rightarrow> bytes"  \<comment> \<open>\<^verbatim>\<open>Buffer.from(s, 'base64')\<close> on a string\<close>
  render_number :: "int \<Rightarrow> jsstring"
    \<comment> \<open>the text of a number that is no safe integer (exponent form from \<open>10^21\<close> on)\<close>

definition number_to_string :: "node_lib \<Rightarrow> int \<Rightarrow> jsstring" where
  \<comment> \<open>\<^verbatim>\<open>${n}\<close> for an integral number: the decimal numeral of a safe integer, and what the
      runtime makes of any other number\<close>
  "number_to_string lib n =
     (if safe_integer n then (if n < 0 then 0x2D # decimal (nat (- n)) else decimal (nat n))
      else render_number lib n)"

text \<open>
  The entropy source is the sequence of the bytes it will deliver. A call of
  \<^verbatim>\<open>crypto.randomBytes(n)\<close> returns the next \<open>n\<close> of them and leaves the source that
  many bytes further.
\<close>

type_synonym entropy = "nat \<Rightarrow> byte"

definition next_bytes :: "nat \<Rightarrow> entropy \<Rightarrow> bytes" where
  "next_bytes n rng = map rng [0..<n]"

definition skip_bytes :: "nat \<Rightarrow> entropy \<Rightarrow> entropy" where
  "skip_bytes n rng = (\<lambda>i. rng (n + i))"

definition randomBytes :: "nat \<Rightarrow> entropy \<Rightarrow> bytes \<times> entropy" where
  "randomBytes n rng = (next_bytes n rng, skip_bytes n rng)"

definition xor_block :: "bytes \<Rightarrow> bytes \<Rightarrow> bytes" where
  "xor_block a b = map2 (XOR) a b"

function blocks :: "bytes \<Rightarrow> bytes list" where
  "blocks m = (if m = [] then [] else take 16 m # blocks (drop 16 m))"
  by pat_completeness auto
termination
  by (relation "measure length") auto

declare blocks.simps [simp del]

fun cbc_encrypt_blocks :: "(bytes \<Rightarrow> bytes) \<Rightarrow> bytes \<Rightarrow> bytes list \<Rightarrow> bytes list" where
  "cbc_encrypt_blocks E prev [] = []"
| "cbc_encrypt_blocks E prev (p # ps) =
     (let c = E (xor_block p prev) in c # cbc_encrypt_blocks E c ps)"

fun cbc_decrypt_blocks :: "(bytes \<Rightarrow> bytes) \<Rightarrow> bytes \<Rightarrow> bytes list \<Rightarrow> bytes list" where
  "cbc_decrypt_blocks D prev [] = []"
| "cbc_decrypt_blocks D prev (c # cs) = xor_block (D c) prev # cbc_decrypt_blocks D c cs"

definition pkcs7_pad :: "bytes \<Rightarrow> bytes" where
  \<comment> \<open>one to sixteen bytes, each holding their number, up to the next block boundary\<close>
  "pkcs7_pad m = (let p = 16 - length m mod 16 in m @ replicate p (of_nat p))"

definition pkcs7_unpad :: "bytes \<Rightarrow> js_error + bytes" where
  "pkcs7_unpad m =
     (let p = unat (last m) in
      if p = 0 \<or> 16 < p then Inl BadDecrypt
      else if drop (length m - p) m \<noteq> replicate p (last m) then Inl BadDecrypt
      else Inr (take (length m - p) m))"

definition cipher_aes_256_cbc :: "node_lib \<Rightarrow> bytes \<Rightarrow> bytes \<Rightarrow> bytes \<Rightarrow> bytes" where
  \<comment> \<open>\<^verbatim>\<open>createCipheriv('aes-256-cbc', key, iv)\<close>, \<^verbatim>\<open>update\<close> and \<^verbatim>\<open>final\<close>: the whole ciphertext\<close>
  "cipher_aes_256_cbc lib key iv m =
     concat (cbc_encrypt_blocks (aes256_encrypt_block lib key) iv (blocks (pkcs7_pad m)))"

definition decipher_aes_256_cbc :: "node_lib \<Rightarrow> bytes \<Rightarrow> bytes \<Rightarrow> jsstring \<Rightarrow> js_error + bytes" where
  \<comment> \<open>\<^verbatim>\<open>createDecipheriv('aes-256-cbc', key, iv)\<close>, \<^verbatim>\<open>update(text, 'hex')\<close> and \<^verbatim>\<open>final\<close>:
      the whole plaintext, or the fault raised on the way. The key is a SHA-256 digest, so
      it has the 32 bytes the cipher asks for.\<close>
  "decipher_aes_256_cbc lib key iv encryptedText =
     (if length iv \<noteq> 16 then Inl InvalidIV
      else if odd (length encryptedText) then Inl InvalidArgValue
      else
        let ct = hex_decode encryptedText in
        if ct = [] \<or> length ct mod 16 \<noteq> 0 then Inl WrongFinalBlockLength
        else pkcs7_unpad (concat (cbc_decrypt_blocks (aes256_decrypt_block lib key) iv (blocks ct))))"

section \<open>utils/crypto.js\<close>

definition encrypt :: "node_lib \<Rightarrow> env \<Rightarrow> entropy \<Rightarrow> jsstring \<Rightarrow> js_error + jsstring \<times> entropy" where
  \<comment> \<open>the envelope and the entropy source after the call, or the error thrown\<close>
  "encrypt lib e rng text =
     (case js_or (DATA_ENCRYPTION_KEY e) (ADMIN_TOKEN e) of
        None \<Rightarrow> Inl ConfigError
      | Some secretKey \<Rightarrow>
          if secretKey = [] then Inl ConfigError
          else
            let key = sha256 lib (utf8_encode secretKey);
                (iv, rng') = randomBytes 16 rng;
                encrypted = hex_encode (cipher_aes_256_cbc lib key iv (utf8_encode text))
            in Inr (hex_encode iv @ colon # encrypted, rng'))"

definition decrypt :: "node_lib \<Rightarrow> env \<Rightarrow> jsstring option \<Rightarrow> js_error + jsstring option" where
  \<comment> \<open>the value returned (\<open>None\<close> is \<^verbatim>\<open>null\<close>), or the error thrown\<close>
  "decrypt lib e text =
     (case js_or (DATA_ENCRYPTION_KEY e) (ADMIN_TOKEN e) of
        None \<Rightarrow> Inl ConfigError
      | Some secretKey \<Rightarrow>
          if secretKey = [] then Inl ConfigError
          else
            (case text of
               None \<Rightarrow> Inr text
             | Some t \<Rightarrow>
                 if t = [] \<or> colon \<notin> set t then Inr text
                 else
                   let key = sha256 lib (utf8_encode secretKey) in
                   (case split_on colon t of
                      [] \<Rightarrow> Inl TypeError
                    | first # textParts \<Rightarrow>
                        let iv = hex_decode first;
                            encryptedText = join colon textParts
                        in (case decipher_aes_256_cbc lib key iv encryptedText of
                              Inl error \<Rightarrow> Inr None
                            | Inr decrypted \<Rightarrow> Inr (Some (utf8_decode decrypted))))))"

definition newline :: "16 word" where
  "newline = 0x0A"

definition generateSignature ::
  "node_lib \<Rightarrow> jsstring \<Rightarrow> jsstring \<Rightarrow> int \<Rightarrow> jsstring \<Rightarrow> jsstring \<Rightarrow> jsstring \<Rightarrow> jsstring \<Rightarrow> jsstring" where
  "generateSignature lib method path timestamp deviceId userId body secretKey =
     (let message = method @ newline # path @ newline # number_to_string lib timestamp @ newline
                      # deviceId @ newline # userId @ newline # body
      in base64_encode (hmac_sha256 lib (utf8_encode secretKey) (utf8_encode message)))"

definition Buffer_from_base64 :: "node_lib \<Rightarrow> jsstring option \<Rightarrow> js_error + bytes" where
  \<comment> \<open>\<^verbatim>\<open>Buffer.from(v, 'base64')\<close>: a value that is no string is refused\<close>
  "Buffer_from_base64 lib v =
     (case v of None \<Rightarrow> Inl TypeError | Some s \<Rightarrow> Inr (base64_decode lib s))"

definition timingSafeEqual :: "bytes \<Rightarrow> bytes \<Rightarrow> js_error + bool" where
  "timingSafeEqual a b = (if length a \<noteq> length b then Inl RangeError else Inr (a = b))"

definition verifySignature :: "node_lib \<Rightarrow> jsstring option \<Rightarrow> jsstring option \<Rightarrow> js_error + bool" where
  \<comment> \<open>the value returned, or the error thrown; the \<^verbatim>\<open>catch\<close> is the \<open>Inl\<close> branch\<close>
  "verifySignature lib signature expectedSignature =
     (case (case Buffer_from_base64 lib signature of
              Inl error \<Rightarrow> Inl error
            | Inr a \<Rightarrow>
                (case Buffer_from_base64 lib expectedSignature of
                   Inl error \<Rightarrow> Inl error
                 | Inr b \<Rightarrow> timingSafeEqual a b)) of
        Inl error \<Rightarrow> Inr False
      | Inr r \<Rightarrow> Inr r)"

section \<open>routes/admin.js\<close>

text \<open>
  A row of \<^verbatim>\<open>analytics_projects\<close> with the columns the handlers read and write; a column
  that holds SQL \<^verbatim>\<open>NULL\<close> is \<open>None\<close>. The table is the list of its rows; the
  constraints of its schema are not part of the model. The \<^verbatim>\<open>:id\<close> of the path is taken
  as the key value the database compares it with.
\<close>

record project =
  id_col :: nat
  project_id :: jsstring
  project_name :: "jsstring option"
  db_host :: "jsstring option"
  db_port :: "int option"
  db_name :: "jsstring option"
  db_user :: "jsstring option"
  db_password_encrypted :: "jsstring option"
  table_prefix :: "jsstring option"
  is_active :: "bool option"

text \<open>The fields of the body of an update; a field that is not sent is \<open>None\<close>.\<close>

record update_body =
  body_project_name :: "jsstring option"
  body_db_host :: "jsstring option"
  body_db_port :: "int option"
  body_db_name :: "jsstring option"
  body_db_user :: "jsstring option"
  body_db_password :: "jsstring option"
  body_table_prefix :: "jsstring option"
  body_is_active :: "bool option"

text \<open>What a handler comes to: the 404 answer, the error it caught, or the value it goes on with.\<close>

datatype 'a outcome = NotFound | Failed js_error | Proceeds 'a

definition select_by_id :: "project list \<Rightarrow> nat \<Rightarrow> project list" where
  \<comment> \<open>\<^verbatim>\<open>SELECT * FROM analytics_projects WHERE id = $1\<close>\<close>
  "select_by_id tbl i = filter (\<lambda>r. id_col r = i) tbl"

definition update_with_password :: "update_body \<Rightarrow> jsstring option \<Rightarrow> nat \<Rightarrow> project list \<Rightarrow> project list" where
  \<comment> \<open>the \<^verbatim>\<open>UPDATE\<close> of the first branch: eight columns\<close>
  "update_with_password b encryptedPassword i tbl =
     map (\<lambda>r. if id_col r = i
              then r\<lparr>project_name := body_project_name b, db_host := body_db_host b,
                     db_port := body_db_port b, db_name := body_db_name b,
                     db_user := body_db_user b, db_password_encrypted := encryptedPassword,
                     table_prefix := body_table_prefix b, is_active := body_is_active b\<rparr>
              else r) tbl"

definition update_without_password :: "update_body \<Rightarrow> nat \<Rightarrow> project list \<Rightarrow> project list" where
  \<comment> \<open>the \<^verbatim>\<open>UPDATE\<close> of the second branch: seven columns\<close>
  "update_without_password b i tbl =
     map (\<lambda>r. if id_col r = i
              then r\<lparr>project_name := body_project_name b, db_host := body_db_host b,
                     db_port := body_db_port b, db_name := body_db_name b,
                     db_user := body_db_user b,
                     table_prefix := body_table_prefix b, is_active := body_is_active b\<rparr>
              else r) tbl"

definition put_project ::
  "node_lib \<Rightarrow> env \<Rightarrow> entropy \<Rightarrow> project list \<Rightarrow> nat \<Rightarrow> update_body
     \<Rightarrow> project list \<times> entropy \<times> project outcome" where
  \<comment> \<open>\<^verbatim>\<open>PUT /projects/:id\<close>: the table and the entropy source after the request, and the
      answer (the row returned, 404, or the error handed to \<^verbatim>\<open>next\<close>). Reloading the
      cached configuration afterwards is left to the project manager.\<close>
  "put_project lib e rng tbl i b =
     (case (case body_db_password b of
              None \<Rightarrow> Inr (None, rng)
            | Some db_password \<Rightarrow>
                if db_password = [] then Inr (None, rng)
                else (case encrypt lib e rng db_password of
                        Inl error \<Rightarrow> Inl error
                      | Inr (envelope, rng') \<Rightarrow> Inr (Some envelope, rng'))) of
        Inl error \<Rightarrow> (tbl, rng, Failed error)
      | Inr (encryptedPassword, rng') \<Rightarrow>
          let tbl' = (if truthy encryptedPassword
                      then update_with_password b encryptedPassword i tbl
                      else update_without_password b i tbl)
          in (case select_by_id tbl' i of
                [] \<Rightarrow> (tbl', rng', NotFound)
              | row # rows \<Rightarrow> (tbl', rng', Proceeds row)))"

record pool_config =
  host :: "jsstring option"
  port :: "int option"
  database :: "jsstring option"
  user :: "jsstring option"
  password :: "jsstring option"

record project_config =
  projectId :: jsstring
  database_config :: pool_config
  tablePrefix :: "jsstring option"

definition system_project :: jsstring where
  "system_project = js ''analytics-system''"

definition connection_of :: "project \<Rightarrow> jsstring option \<Rightarrow> pool_config" where
  \<comment> \<open>the connection parameters of a row with \<^verbatim>\<open>password: dbPassword || undefined\<close>\<close>
  "connection_of p dbPassword =
     \<lparr>host = db_host p, port = db_port p, database = db_name p, user = db_user p,
      password = js_or dbPassword None\<rparr>"

definition post_test :: "env \<Rightarrow> project list \<Rightarrow> nat \<Rightarrow> pool_config outcome" where
  \<comment> \<open>\<^verbatim>\<open>POST /projects/:id/test\<close>, up to the pool it opens\<close>
  "post_test e tbl i =
     (case select_by_id tbl i of
        [] \<Rightarrow> NotFound
      | p # rows \<Rightarrow>
          let dbPassword = db_password_encrypted p;
              dbPassword = (if \<not> truthy dbPassword \<and> project_id p = system_project
                            then DB_PASSWORD e else dbPassword)
          in Proceeds (connection_of p dbPassword))"

definition post_init :: "node_lib \<Rightarrow> env \<Rightarrow> project list \<Rightarrow> nat \<Rightarrow> project_config outcome" where
  \<comment> \<open>\<^verbatim>\<open>POST /projects/:id/init\<close>, up to the configuration it initialises\<close>
  "post_init lib e tbl i =
     (case select_by_id tbl i of
        [] \<Rightarrow> NotFound
      | p # rows \<Rightarrow>
          (case (if truthy (db_password_encrypted p) then decrypt lib e (db_password_encrypted p)
                 else Inr None) of
             Inl error \<Rightarrow> Failed error
           | Inr dbPassword \<Rightarrow>
               let dbPassword = (if \<not> truthy dbPassword \<and> project_id p = system_project
                                 then DB_PASSWORD e else dbPassword)
               in Proceeds \<lparr>projectId = project_id p,
                             database_config = connection_of p dbPassword,
                             tablePrefix = table_prefix p\<rparr>))"

definition get_health :: "env \<Rightarrow> project list \<Rightarrow> nat \<Rightarrow> project_config outcome" where
  \<comment> \<open>\<^verbatim>\<open>GET /projects/:id/health\<close>, up to the configuration it checks\<close>
  "get_health e tbl i =
     (case select_by_id tbl i of
        [] \<Rightarrow> NotFound
      | p # rows \<Rightarrow>
          let dbPassword = db_password_encrypted p;
              dbPassword = (if \<not> truthy dbPassword \<and> project_id p = system_project
                            then DB_PASSWORD e else dbPassword)
          in Proceeds \<lparr>projectId = project_id p,
                        database_config = connection_of p dbPassword,
                        tablePrefix = table_prefix p\<rparr>)"

section \<open>Notions of the specification\<close>

definition canonical_form :: "jsstring list \<Rightarrow> jsstring" where
  \<comment> \<open>the fields joined by newline characters, in the order given\<close>
  "canonical_form parts = join newline parts"

definition digit_value :: "16 word \<Rightarrow> nat option" where
  "digit_value c = (if 0x30 \<le> unat c \<and> unat c \<le> 0x39 then Some (unat c - 0x30) else None)"

fun digits_value :: "nat \<Rightarrow> jsstring \<Rightarrow> nat option" where
  "digits_value acc [] = Some acc"
| "digits_value acc (c # cs) =
     (case digit_value c of None \<Rightarrow> None | Some d \<Rightarrow> digits_value (10 * acc + d) cs)"

definition decimal_value :: "jsstring \<Rightarrow> int option" where
  \<comment> \<open>the integer that a decimal numeral denotes: digits without a leading zero, after a
      minus sign for a negative one; any other text denotes none\<close>
  "decimal_value s =
     (case s of
        [] \<Rightarrow> None
      | c # cs \<Rightarrow>
          if c = 0x2D then
            (case cs of
               [] \<Rightarrow> None
             | d # ds \<Rightarrow> if d = 0x30 then None else map_option (\<lambda>n. - int n) (digits_value 0 cs))
          else if c = 0x30 \<and> cs \<noteq> [] then None
          else map_option int (digits_value 0 s))"

definition hex_char :: "16 word \<Rightarrow> bool" where
  "hex_char c = (c \<in> set (js ''0123456789abcdefABCDEF''))"

definition hex_text :: "jsstring \<Rightarrow> bool" where
  \<comment> \<open>hexadecimal text: pairs of hexadecimal digits and nothing else\<close>
  "hex_text s = (even (length s) \<and> list_all hex_char s)"

fun well_formed :: "jsstring \<Rightarrow> bool" where
  \<comment> \<open>no unpaired surrogate: every high surrogate is followed by a low one, and no low
      surrogate stands elsewhere\<close>
  "well_formed [] = True"
| "well_formed (c # cs) =
     (if is_high_surrogate c then
        (case cs of [] \<Rightarrow> False | d # ds \<Rightarrow> is_low_surrogate d \<and> well_formed ds)
      else \<not> is_low_surrogate c \<and> well_formed cs)"

definition block_cipher :: "node_lib \<Rightarrow> bool" where
  \<comment> \<open>what is assumed of the block cipher: blocks of 16 bytes go to blocks of 16 bytes, and
      decrypting under a key undoes encrypting under it\<close>
  "block_cipher lib =
     (\<forall>k b. length b = 16 \<longrightarrow>
        length (aes256_encrypt_block lib k b) = 16 \<and>
        aes256_decrypt_block lib k (aes256_encrypt_block lib k b) = b)"

definition key_configured :: "env \<Rightarrow> bool" where
  \<comment> \<open>a master key is configured: one of the two variables holds a non-empty value\<close>
  "key_configured e = (truthy (DATA_ENCRYPTION_KEY e) \<or> truthy (ADMIN_TOKEN e))"

definition derived_key :: "node_lib \<Rightarrow> env \<Rightarrow> bytes" where
  \<comment> \<open>the key of the cipher: the hash of the configured secret (of the empty string when
      none is configured, a case encrypt and decrypt never reach)\<close>
  "derived_key lib e =
     sha256 lib (utf8_encode (case js_or (DATA_ENCRYPTION_KEY e) (ADMIN_TOKEN e) of
                                None \<Rightarrow> [] | Some secretKey \<Rightarrow> secretKey))"

definition decrypt_of_encrypt :: "node_lib \<Rightarrow> env \<Rightarrow> entropy \<Rightarrow> jsstring \<Rightarrow> js_error + jsstring option" where
  \<comment> \<open>\<^verbatim>\<open>decrypt(encrypt(x))\<close>\<close>
  "decrypt_of_encrypt lib e rng x =
     (case encrypt lib e rng x of
        Inl error \<Rightarrow> Inl error
      | Inr (envelope, rng') \<Rightarrow> decrypt lib e (Some envelope))"

definition envelope_shape :: "bytes \<Rightarrow> bytes \<Rightarrow> jsstring" where
  \<comment> \<open>\<^verbatim>\<open>hexIV:hexCiphertext\<close>\<close>
  "envelope_shape iv ct = hex_encode iv @ colon # hex_encode ct"

definition seven_columns_set :: "update_body \<Rightarrow> project \<Rightarrow> bool" where
  \<comment> \<open>the row holds the seven values of the request other than the password\<close>
  "seven_columns_set b r =
     (project_name r = body_project_name b \<and> db_host r = body_db_host b
      \<and> db_port r = body_db_port b \<and> db_name r = body_db_name b
      \<and> db_user r = body_db_user b \<and> table_prefix r = body_table_prefix b
      \<and> is_active r = body_is_active b)"

section \<open>A small library to instantiate the parameter\<close>

text \<open>
  The theorems below hold for every library. To apply them at concrete inputs, a small
  library stands in for the runtime's: a decoder of base64 text that skips what is not in
  the alphabet and stops at the first \<^verbatim>\<open>=\<close>, and a byte-wise shift for the block cipher.
\<close>

definition unbase64 :: "16 word \<Rightarrow> nat option" where
  "unbase64 c =
     (if 0x41 \<le> unat c \<and> unat c \<le> 0x5A then Some (unat c - 0x41)
      else if 0x61 \<le> unat c \<and> unat c \<le> 0x7A then Some (unat c - 0x61 + 26)
      else if 0x30 \<le> unat c \<and> unat c \<le> 0x39 then Some (unat c - 0x30 + 52)
      else if c = 0x2B \<or> c = 0x2D then Some 62
      else if c = 0x2F \<or> c = 0x5F then Some 63
      else None)"

fun sextets :: "jsstring \<Rightarrow> nat list" where
  "sextets [] = []"
| "sextets (c # cs) =
     (if c = pad_char then []
      else (case unbase64 c of None \<Rightarrow> sextets cs | Some v \<Rightarrow> v # sextets cs))"

fun bytes_of_sextets :: "nat list \<Rightarrow> bytes" where
  "bytes_of_sextets (a # b # c # d # r) =
     [of_nat (a * 4 + b div 16), of_nat (b mod 16 * 16 + c div 4), of_nat (c mod 4 * 64 + d)]
     @ bytes_of_sextets r"
| "bytes_of_sextets [a, b, c] = [of_nat (a * 4 + b div 16), of_nat (b mod 16 * 16 + c div 4)]"
| "bytes_of_sextets [a, b] = [of_nat (a * 4 + b div 16)]"
| "bytes_of_sextets _ = []"

definition lenient_base64_decode :: "jsstring \<Rightarrow> bytes" where
  "lenient_base64_decode s = bytes_of_sextets (sextets s)"

definition toy_lib :: node_lib where
  "toy_lib =
     \<lparr>sha256 = (\<lambda>m. take 32 (m @ replicate 32 0)),
      hmac_sha256 = (\<lambda>k m. take 32 (k @ m @ replicate 32 0)),
      aes256_encrypt_block = (\<lambda>k b. map (\<lambda>x. x + 1) b),
      aes256_decrypt_block = (\<lambda>k b. map (\<lambda>x. x - 1) b),
      base64_decode = lenient_base64_decode,
      render_number = (\<lambda>n. js ''1e+21'')\<rparr>"

definition constant_source :: "byte \<Rightarrow> entropy" where
  \<comment> \<open>a source that delivers one byte over and over\<close>
  "constant_source b = (\<lambda>i. b)"

definition toy_env :: env where
  "toy_env = \<lparr>DATA_ENCRYPTION_KEY = Some (js ''k''), ADMIN_TOKEN = None,
              DB_PASSWORD = Some (js ''pg'')\<rparr>"

text \<open>Rows and requests to apply the theorems to.\<close>

definition tenant_row :: project where
  "tenant_row =
     \<lparr>id_col = 2, project_id = js ''shop'', project_name = Some (js ''Shop''),
      db_host = Some (js ''db.internal''), db_port = Some 5432, db_name = Some (js ''shop''),
      db_user = Some (js ''shop''), db_password_encrypted = Some (js ''old''),
      table_prefix = Some (js ''analytics_''), is_active = Some True\<rparr>"

definition corrupt_system_row :: project where
  \<comment> \<open>the system tenant with a stored password that is no envelope of the cipher\<close>
  "corrupt_system_row =
     \<lparr>id_col = 1, project_id = system_project, project_name = Some (js ''system''),
      db_host = Some (js ''localhost''), db_port = Some 5432, db_name = Some (js ''analytics''),
      db_user = Some (js ''postgres''), db_password_encrypted = Some (js ''00ff:zz''),
      table_prefix = Some (js ''analytics_''), is_active = Some True\<rparr>"

definition encrypted_row :: "jsstring \<Rightarrow> project" where
  \<comment> \<open>a tenant whose password is stored as the given envelope\<close>
  "encrypted_row envl = tenant_row\<lparr>db_password_encrypted := Some envl\<rparr>"

definition rename_body :: update_body where
  \<comment> \<open>an update that sends no password\<close>
  "rename_body =
     \<lparr>body_project_name = Some (js ''Shop 2''), body_db_host = Some (js ''db2.internal''),
      body_db_port = Some 5433, body_db_name = Some (js ''shop2''),
      body_db_user = Some (js ''shop2''), body_db_password = None,
      body_table_prefix = Some (js ''a_''), body_is_active = Some False\<rparr>"

definition toy_envelope :: jsstring where
  \<comment> \<open>what encrypt returns for the password \<^verbatim>\<open>new\<close> with the small library and an IV of zeros\<close>
  "toy_envelope =
     envelope_shape (next_bytes 16 (constant_source 0))
       (cipher_aes_256_cbc toy_lib (derived_key toy_lib toy_env) (next_bytes 16 (constant_source 0))
          (utf8_encode (js ''new'')))"

section \<open>Facts about the encodings\<close>

lemma unat_of_nat16: "k < 65536 \<Longrightarrow> unat (of_nat k :: 16 word) = k"
  by (simp add: unat_of_nat)

lemma unat_of_nat8: "k < 256 \<Longrightarrow> unat (of_nat k :: 8 word) = k"
  by (simp add: unat_of_nat)

lemma unat_byte: "unat (b :: byte) < 256"
  using unsigned_less [of b, where 'a = nat] by simp

lemma unat_unit: "unat (c :: 16 word) < 65536"
  using unsigned_less [of c, where 'a = nat] by simp

lemma digits3:
  fixes u :: nat
  shows "u = u div 0x1000 * 0x1000 + u div 0x40 mod 0x40 * 0x40 + u mod 0x40"
proof -
  have 1: "u = u div 0x40 * 0x40 + u mod 0x40" by (rule div_mult_mod_eq [symmetric])
  have 2: "u div 0x40 = u div 0x40 div 0x40 * 0x40 + u div 0x40 mod 0x40"
    by (rule div_mult_mod_eq [symmetric])
  have 3: "u div 0x40 div 0x40 = u div 0x1000" by (simp add: div_mult2_eq [symmetric])
  from 1 2 3 show ?thesis by linarith
qed

lemma digits4:
  fixes n :: nat
  shows "n = n div 0x40000 * 0x40000 + n div 0x1000 mod 0x40 * 0x1000
             + n div 0x40 mod 0x40 * 0x40 + n mod 0x40"
proof -
  have 1: "n = n div 0x1000 * 0x1000 + n div 0x40 mod 0x40 * 0x40 + n mod 0x40" by (rule digits3)
  have 2: "n div 0x1000 = n div 0x1000 div 0x40 * 0x40 + n div 0x1000 mod 0x40"
    by (rule div_mult_mod_eq [symmetric])
  have 3: "n div 0x1000 div 0x40 = n div 0x40000" by (simp add: div_mult2_eq [symmetric])
  from 1 2 3 show ?thesis by linarith
qed

lemma lead_mod: 
  fixes a :: nat
  shows "a < 0x20 \<Longrightarrow> (0xC0 + a) mod 0x20 = a" 
    and "a < 0x10 \<Longrightarrow> (0xE0 + a) mod 0x10 = a"
    and "a < 0x08 \<Longrightarrow> (0xF0 + a) mod 0x08 = a"
    and "a < 0x40 \<Longrightarrow> (0x80 + a) mod 0x40 = a"
  using mod_mult_self3 [of 6 "0x20" a] mod_mult_self3 [of 14 "0x10" a]
    mod_mult_self3 [of 30 "0x08" a] mod_mult_self3 [of 2 "0x40" a]
  by simp_all

lemma decode_1:
  assumes "u < 0x80"
  shows "utf8_decode (of_nat u # bs) = of_nat u # utf8_decode bs"
proof -
  have "unat (of_nat u :: byte) = u" using assms by (simp add: unat_of_nat8)
  then show ?thesis using assms by (simp del: of_nat_unat)
qed

lemma decode_2_core:
  assumes "2 \<le> a" "a < 0x20" "b < 0x40"
  shows "utf8_decode (of_nat (0xC0 + a) # of_nat (0x80 + b) # bs)
         = of_nat (a * 0x40 + b) # utf8_decode bs"
proof -
  have b1: "unat (of_nat (0xC0 + a) :: byte) = 0xC0 + a"
    using assms by (intro unat_of_nat8) simp
  have b2: "unat (of_nat (0x80 + b) :: byte) = 0x80 + b"
    using assms by (intro unat_of_nat8) simp
  show ?thesis
    apply (subst utf8_decode.simps)
    unfolding b1 b2 in_range_def tail6_def list.case
    using assms by (simp add: lead_mod del: of_nat_add of_nat_mult utf8_decode.simps)
qed

lemma decode_3_core:
  assumes "a < 0x10" "b < 0x40" "c < 0x40" "a = 0 \<Longrightarrow> 0x20 \<le> b" "a = 0xD \<Longrightarrow> b < 0x20"
  shows "utf8_decode (of_nat (0xE0 + a) # of_nat (0x80 + b) # of_nat (0x80 + c) # bs)
         = of_nat (a * 0x1000 + b * 0x40 + c) # utf8_decode bs"
proof -
  have b1: "unat (of_nat (0xE0 + a) :: byte) = 0xE0 + a"
    using assms by (intro unat_of_nat8) simp
  have b2: "unat (of_nat (0x80 + b) :: byte) = 0x80 + b"
    using assms by (intro unat_of_nat8) simp
  have b3: "unat (of_nat (0x80 + c) :: byte) = 0x80 + c"
    using assms by (intro unat_of_nat8) simp
  have g: "a = 0 \<longrightarrow> 0x20 \<le> b" "a = 0xD \<longrightarrow> b \<le> 0x1F" using assms(4,5) by auto
  have lo: "second_lo (of_nat (0xE0 + a)) = (if a = 0 then 0xA0 else 0x80)"
    unfolding second_lo_def word_unat_eq_iff b1 using assms(1) by simp
  have hi: "second_hi (of_nat (0xE0 + a)) = (if a = 0xD then 0x9F else 0xBF)"
    unfolding second_hi_def word_unat_eq_iff b1 using assms(1) by simp
  show ?thesis
    apply (subst utf8_decode.simps)
    unfolding b1 b2 b3 lo hi in_range_def tail6_def list.case
    using assms(1-3) g by (simp add: lead_mod del: of_nat_add of_nat_mult utf8_decode.simps)
qed

lemma decode_4_core:
  assumes "a < 5" "b < 0x40" "c < 0x40" "d < 0x40" "a = 0 \<Longrightarrow> 0x10 \<le> b" "a = 4 \<Longrightarrow> b < 0x10"
  shows "utf8_decode (of_nat (0xF0 + a) # of_nat (0x80 + b) # of_nat (0x80 + c)
           # of_nat (0x80 + d) # bs)
         = units_of_codepoint (a * 0x40000 + b * 0x1000 + c * 0x40 + d) @ utf8_decode bs"
proof -
  have b1: "unat (of_nat (0xF0 + a) :: byte) = 0xF0 + a"
    using assms by (intro unat_of_nat8) simp
  have b2: "unat (of_nat (0x80 + b) :: byte) = 0x80 + b"
    using assms by (intro unat_of_nat8) simp
  have b3: "unat (of_nat (0x80 + c) :: byte) = 0x80 + c"
    using assms by (intro unat_of_nat8) simp
  have b4: "unat (of_nat (0x80 + d) :: byte) = 0x80 + d"
    using assms by (intro unat_of_nat8) simp
  have g: "a = 0 \<longrightarrow> 0x10 \<le> b" "a = 4 \<longrightarrow> b \<le> 0xF" using assms(5,6) by auto
  have lo: "second_lo (of_nat (0xF0 + a)) = (if a = 0 then 0x90 else 0x80)"
    unfolding second_lo_def word_unat_eq_iff b1 using assms(1) by simp
  have hi: "second_hi (of_nat (0xF0 + a)) = (if a = 4 then 0x8F else 0xBF)"
    unfolding second_hi_def word_unat_eq_iff b1 using assms(1) by simp
  show ?thesis
    apply (subst utf8_decode.simps)
    unfolding b1 b2 b3 b4 lo hi in_range_def tail6_def list.case
    using assms(1-4) g by (simp add: lead_mod del: of_nat_add of_nat_mult utf8_decode.simps)
qed

lemma decode_2:
  assumes "0x80 \<le> u" "u < 0x800"
  shows "utf8_decode (of_nat (0xC0 + u div 0x40) # of_nat (0x80 + u mod 0x40) # bs)
         = of_nat u # utf8_decode bs"
proof -
  have "2 \<le> u div 0x40" "u div 0x40 < 0x20" "u mod 0x40 < 0x40" using assms by auto
  from decode_2_core [OF this] show ?thesis by (simp del: of_nat_add of_nat_mult utf8_decode.simps)
qed

lemma decode_3:
  assumes "0x800 \<le> u" "u < 0x10000" "\<not> (0xD800 \<le> u \<and> u < 0xE000)"
  shows "utf8_decode (of_nat (0xE0 + u div 0x1000) # of_nat (0x80 + u div 0x40 mod 0x40)
           # of_nat (0x80 + u mod 0x40) # bs)
         = of_nat u # utf8_decode bs"
proof -
  note d = digits3 [of u]
  have 1: "u div 0x1000 < 0x10" using assms by auto
  have 2: "u div 0x40 mod 0x40 < 0x40" and 3: "u mod 0x40 < 0x40" by simp_all
  have 4: "0x20 \<le> u div 0x40 mod 0x40" if "u div 0x1000 = 0" using d that assms(1) 3 by linarith
  have 5: "u div 0x40 mod 0x40 < 0x20" if "u div 0x1000 = 0xD" using d that assms(3) 2 3 by linarith
  from decode_3_core [OF 1 2 3 4 5] d show ?thesis by (simp del: of_nat_add of_nat_mult utf8_decode.simps)
qed

lemma decode_4:
  assumes "0x10000 \<le> n" "n < 0x110000"
  shows "utf8_decode (of_nat (0xF0 + n div 0x40000) # of_nat (0x80 + n div 0x1000 mod 0x40)
           # of_nat (0x80 + n div 0x40 mod 0x40) # of_nat (0x80 + n mod 0x40) # bs)
         = units_of_codepoint n @ utf8_decode bs"
proof -
  note d = digits4 [of n]
  have 1: "n div 0x40000 < 5" using assms by auto
  have 2: "n div 0x1000 mod 0x40 < 0x40" and 3: "n div 0x40 mod 0x40 < 0x40" and 4: "n mod 0x40 < 0x40"
    by simp_all
  have 5: "0x10 \<le> n div 0x1000 mod 0x40" if "n div 0x40000 = 0" using d that assms(1) 3 4 by linarith
  have 6: "n div 0x1000 mod 0x40 < 0x10" if "n div 0x40000 = 4" using d that assms(2) 2 3 4 by linarith
  from decode_4_core [OF 1 2 3 4 5 6] d show ?thesis by (simp del: of_nat_add of_nat_mult utf8_decode.simps)
qed

lemma units_of_pair:
  assumes "is_high_surrogate c" "is_low_surrogate d"
  shows "units_of_codepoint (0x10000 + (unat c - 0xD800) * 0x400 + (unat d - 0xDC00)) = [c, d]"
proof -
  define h where "h = unat c - 0xD800"
  define l where "l = unat d - 0xDC00"
  have h: "h < 0x400" "unat c = 0xD800 + h" and l: "l < 0x400" "unat d = 0xDC00 + l"
    using assms by (auto simp: is_high_surrogate_def is_low_surrogate_def h_def l_def)
  have "(h * 0x400 + l) div 0x400 = h" "(h * 0x400 + l) mod 0x400 = l" using l by auto
  then have "units_of_codepoint (0x10000 + h * 0x400 + l) = [of_nat (unat c), of_nat (unat d)]"
    unfolding units_of_codepoint_def h l by (simp del: of_nat_add of_nat_unat)
  then show ?thesis by (simp add: h_def l_def)
qed

lemma utf8_roundtrip: "well_formed x \<Longrightarrow> utf8_decode (utf8_encode x) = x"
proof (induction x rule: well_formed.induct)
  case 1 show ?case by simp
next
  case (2 c cs)
  have c: "unat c < 0x10000" using unat_unit [of c] by simp
  show ?case
  proof (cases "is_high_surrogate c")
    case True
    with "2.prems" obtain d ds where cs: "cs = d # ds" and d: "is_low_surrogate d" and w: "well_formed ds"
      by (auto split: list.splits)
    from True have u: "\<not> unat c < 0x80" "\<not> unat c < 0x800" by (auto simp: is_high_surrogate_def)
    define n where "n = 0x10000 + (unat c - 0xD800) * 0x400 + (unat d - 0xDC00)"
    have n: "0x10000 \<le> n" "n < 0x110000"
      using True d by (auto simp: n_def is_high_surrogate_def is_low_surrogate_def)
    have "utf8_decode (utf8_of_pair c d @ utf8_encode ds) = units_of_codepoint n @ utf8_decode (utf8_encode ds)"
      unfolding utf8_of_pair_def n_def [symmetric] Let_def using decode_4 [OF n] by simp
    also have "units_of_codepoint n = [c, d]" unfolding n_def by (rule units_of_pair [OF True d])
    finally show ?thesis using "2.IH"(1) [OF True cs] w u True d cs by simp
  next
    case False
    with "2.prems" have nl: "\<not> is_low_surrogate c" and w: "well_formed cs" by auto
    with "2.IH"(2) False have ih: "utf8_decode (utf8_encode cs) = cs" by simp
    consider "unat c < 0x80" | "0x80 \<le> unat c" "unat c < 0x800" | "0x800 \<le> unat c" by linarith
    then show ?thesis
    proof cases
      case 1
      with ih decode_1 [OF 1] show ?thesis by (simp del: utf8_decode.simps)
    next
      case 2
      with ih decode_2 [OF 2] show ?thesis by (simp del: utf8_decode.simps)
    next
      case 3
      have "\<not> (0xD800 \<le> unat c \<and> unat c < 0xE000)"
        using False nl by (auto simp: is_high_surrogate_def is_low_surrogate_def)
      from decode_3 [OF 3 c this] ih 3 False nl show ?thesis by (simp del: utf8_decode.simps)
    qed
  qed
qed

lemma length_utf8_encode: "length x \<le> length (utf8_encode x)"
proof (induction x rule: utf8_encode.induct)
  case 1
  show ?case by simp
next
  case (2 c cs)
  consider (one) "unat c < 0x80"
    | (two) "\<not> unat c < 0x80" "unat c < 0x800"
    | (lone_high) "\<not> unat c < 0x80" "\<not> unat c < 0x800" "is_high_surrogate c" "cs = []"
    | (pair) d ds where "\<not> unat c < 0x80" "\<not> unat c < 0x800" "is_high_surrogate c"
        "cs = d # ds" "is_low_surrogate d"
    | (high) d ds where "\<not> unat c < 0x80" "\<not> unat c < 0x800" "is_high_surrogate c"
        "cs = d # ds" "\<not> is_low_surrogate d"
    | (low) "\<not> unat c < 0x80" "\<not> unat c < 0x800" "\<not> is_high_surrogate c" "is_low_surrogate c"
    | (three) "\<not> unat c < 0x80" "\<not> unat c < 0x800" "\<not> is_high_surrogate c"
        "\<not> is_low_surrogate c"
    by (cases cs) auto
  then show ?case
  proof cases
    case one
    with "2.IH"(1) show ?thesis by simp
  next
    case two
    with "2.IH"(2) show ?thesis by simp
  next
    case lone_high
    then show ?thesis by (simp add: replacement_def)
  next
    case pair
    with "2.IH"(3) [of d ds] show ?thesis by (simp add: utf8_of_pair_def Let_def)
  next
    case high
    with "2.IH"(4) [of d ds] show ?thesis by (simp add: replacement_def)
  next
    case low
    with "2.IH"(5) show ?thesis by (simp add: replacement_def)
  next
    case three
    with "2.IH"(6) show ?thesis by simp
  qed
qed

lemma unat_hex_digit: "n < 16 \<Longrightarrow> unat (hex_digit n) = (if n < 10 then 48 + n else 87 + n)"
  by (simp add: hex_digit_def unat_of_nat16 del: of_nat_add)

lemma unhex_hex_digit: "n < 16 \<Longrightarrow> unhex (hex_digit n) = Some n"
  by (simp add: unhex_def low_byte_def unat_hex_digit)

lemma hex_roundtrip: "hex_decode (hex_encode bs) = bs"
proof (induction bs)
  case Nil show ?case by (simp add: hex_encode_def)
next
  case (Cons b bs)
  have "unat b < 256" using unsigned_less [of b] by simp
  then have d: "unat b div 16 < 16" and m: "unat b mod 16 < 16" by auto
  have "(of_nat (16 * (unat b div 16) + unat b mod 16) :: 8 word) = b" by simp
  with Cons d m show ?case by (simp add: hex_encode_def unhex_hex_digit)
qed

text \<open>
  What follows hexadecimal text is read on; a code unit above \<open>0xFF\<close> is read by its
  low byte, so U+0130 and U+0131 together are the byte 01.
\<close>

lemma hex_decode_append: "hex_decode (hex_encode bs @ rest) = bs @ hex_decode rest"
proof (induction bs)
  case Nil show ?case by (simp add: hex_encode_def)
next
  case (Cons b bs)
  have "unat b < 256" using unsigned_less [of b] by simp
  then have d: "unat b div 16 < 16" and m: "unat b mod 16 < 16" by auto
  have "(of_nat (16 * (unat b div 16) + unat b mod 16) :: 8 word) = b" by simp
  with Cons d m show ?case by (simp add: hex_encode_def unhex_hex_digit)
qed

lemma hex_low_byte: "hex_decode [0x130, 0x131] = [0x01]"
  by (simp add: unhex_def low_byte_def)

lemma unhex_hex_char: "hex_char c \<Longrightarrow> \<exists>n. unhex c = Some n"
  by (auto simp: hex_char_def js_def unhex_def low_byte_def)

lemma length_hex_decode: "hex_text s \<Longrightarrow> length (hex_decode s) = length s div 2"
proof (induction s rule: hex_decode.induct)
  case (1 a b cs)
  from "1.prems" have a: "hex_char a" and b: "hex_char b" and r: "hex_text cs"
    by (simp_all add: hex_text_def)
  from unhex_hex_char [OF a] obtain h where h: "unhex a = Some h" by blast
  from unhex_hex_char [OF b] obtain l where l: "unhex b = Some l" by blast
  from "1.IH" [OF h l r] show ?case by (simp add: h l)
qed (simp_all add: hex_text_def)

lemma hex_inj: "hex_encode a = hex_encode b \<Longrightarrow> a = b"
  by (metis hex_roundtrip)

lemma length_hex_encode: "length (hex_encode bs) = 2 * length bs"
  by (induction bs) (simp_all add: hex_encode_def)

lemma hex_digit_not_colon: "n < 16 \<Longrightarrow> hex_digit n \<noteq> colon"
proof
  assume "n < 16" and "hex_digit n = colon"
  then have "unat (hex_digit n) = unat colon" by simp
  with \<open>n < 16\<close> show False by (simp add: unat_hex_digit colon_def split: if_splits)
qed

lemma colon_notin_hex: "colon \<notin> set (hex_encode bs)"
proof (induction bs)
  case Nil show ?case by (simp add: hex_encode_def)
next
  case (Cons b bs)
  have "unat b div 16 < 16" "unat b mod 16 < 16" using unat_byte [of b] by auto
  then have "hex_digit (unat b div 16) \<noteq> colon" "hex_digit (unat b mod 16) \<noteq> colon"
    by (simp_all add: hex_digit_not_colon)
  with Cons show ?case by (auto simp: hex_encode_def)
qed

lemma split_on_no_sep: "sep \<notin> set a \<Longrightarrow> split_on sep a = [a]"
  by (induction a) auto

lemma split_first:
  "colon \<in> set t \<Longrightarrow>
   split_on colon t = takeWhile (\<lambda>c. c \<noteq> colon) t # split_on colon (tl (dropWhile (\<lambda>c. c \<noteq> colon) t))"
  by (induction t) (auto simp: split_on_no_sep split: list.splits)

lemma join_cons: "join sep ((c # p) # ps) = c # join sep (p # ps)"
  by (cases ps) simp_all

lemma split_on_nonempty: "split_on sep t \<noteq> []"
  by (induction t) (auto split: list.splits)

lemma join_split: "join sep (split_on sep t) = t"
proof (induction t)
  case Nil show ?case by simp
next
  case (Cons c t)
  show ?case
  proof (cases "c = sep")
    case True
    with Cons split_on_nonempty [of sep t] show ?thesis by (cases "split_on sep t") simp_all
  next
    case False
    with Cons split_on_nonempty [of sep t] show ?thesis
      by (cases "split_on sep t") (simp_all add: join_cons del: join.simps)
  qed
qed

lemma unat_base64_char:
  "n < 64 \<Longrightarrow> unat (base64_char n) =
     (if n < 26 then 0x41 + n else if n < 52 then 0x61 + (n - 26)
      else if n < 62 then 0x30 + (n - 52) else if n = 62 then 0x2B else 0x2F)"
  by (simp add: base64_char_def unat_of_nat16 del: of_nat_add of_nat_diff)

lemma unbase64_base64_char: "n < 64 \<Longrightarrow> unbase64 (base64_char n) = Some n"
proof -
  assume n: "n < 64"
  have w: "(c = 0x2B) = (unat c = 0x2B)" "(c = 0x2D) = (unat c = 0x2D)"
    "(c = 0x2F) = (unat c = 0x2F)" "(c = 0x5F) = (unat c = 0x5F)" for c :: "16 word"
    by (simp_all add: word_unat_eq_iff)
  show ?thesis
    unfolding unbase64_def w unat_base64_char [OF n] using n by auto
qed

lemma base64_char_not_pad: "n < 64 \<Longrightarrow> base64_char n \<noteq> pad_char"
proof
  assume n: "n < 64" and "base64_char n = pad_char"
  then have "unat (base64_char n) = unat pad_char" by simp
  then show False unfolding unat_base64_char [OF n] using n by (simp add: pad_char_def split: if_splits)
qed

lemma sextets_char: "n < 64 \<Longrightarrow> sextets (base64_char n # cs) = n # sextets cs"
  by (simp add: unbase64_base64_char base64_char_not_pad)

lemma sextets_pad: "sextets (pad_char # cs) = []"
  by simp

lemma group3:
  fixes x y z :: nat
  assumes "x < 256" "y < 256" "z < 256"
  shows "x div 4 < 64" "x mod 4 * 16 + y div 16 < 64" "y mod 16 * 4 + z div 64 < 64" "z mod 64 < 64"
    "x mod 4 * 16 < 64" "y mod 16 * 4 < 64"
    "x div 4 * 4 + (x mod 4 * 16 + y div 16) div 16 = x"
    "(x mod 4 * 16 + y div 16) mod 16 * 16 + (y mod 16 * 4 + z div 64) div 4 = y"
    "(y mod 16 * 4 + z div 64) mod 4 * 64 + z mod 64 = z"
    "x div 4 * 4 + (x mod 4 * 16) div 16 = x"
    "(x mod 4 * 16 + y div 16) mod 16 * 16 + (y mod 16 * 4) div 4 = y"
  using assms by (auto simp: div_add1_eq)

lemma base64_roundtrip: "lenient_base64_decode (base64_encode bs) = bs"
  unfolding lenient_base64_decode_def
proof (induction bs rule: base64_encode.induct)
  case 1
  show ?case by simp
next
  case (2 a)
  note g = group3 [OF unat_byte [of a] unat_byte [of a] unat_byte [of a]]
  have "bytes_of_sextets (sextets (base64_encode [a]))
      = [of_nat (unat a div 4 * 4 + (unat a mod 4 * 16) div 16)]"
    by (simp add: sextets_char sextets_pad g(1-6) del: sextets.simps of_nat_add of_nat_mult)
  also have "\<dots> = [a]" unfolding g(10) by simp
  finally show ?case .
next
  case (3 a b)
  note g = group3 [OF unat_byte [of a] unat_byte [of b] unat_byte [of b]]
  have "bytes_of_sextets (sextets (base64_encode [a, b]))
      = [of_nat (unat a div 4 * 4 + (unat a mod 4 * 16 + unat b div 16) div 16),
         of_nat ((unat a mod 4 * 16 + unat b div 16) mod 16 * 16 + (unat b mod 16 * 4) div 4)]"
    by (simp add: sextets_char sextets_pad g(1-6) del: sextets.simps of_nat_add of_nat_mult)
  also have "\<dots> = [a, b]" unfolding g(7,11) by simp
  finally show ?case .
next
  case (4 a b c r)
  note g = group3 [OF unat_byte [of a] unat_byte [of b] unat_byte [of c]]
  have "bytes_of_sextets (sextets (base64_encode (a # b # c # r)))
      = [of_nat (unat a div 4 * 4 + (unat a mod 4 * 16 + unat b div 16) div 16),
         of_nat ((unat a mod 4 * 16 + unat b div 16) mod 16 * 16 + (unat b mod 16 * 4 + unat c div 64) div 4),
         of_nat ((unat b mod 16 * 4 + unat c div 64) mod 4 * 64 + unat c mod 64)]
        @ bytes_of_sextets (sextets (base64_encode r))"
    by (simp add: sextets_char sextets_pad g(1-6) del: sextets.simps of_nat_add of_nat_mult)
  also have "\<dots> = a # b # c # r" unfolding g(7-9) "4.IH" by simp
  finally show ?case .
qed

lemma decimal_example: "number_to_string lib 1700000000000 = js ''1700000000000''"
  by (simp add: number_to_string_def safe_integer_def decimal.simps js_def)

text \<open>The text of a safe integer is its decimal numeral.\<close>

lemma digit_value_digit: "d < 10 \<Longrightarrow> digit_value (of_nat (0x30 + d)) = Some d"
  by (simp add: digit_value_def unat_of_nat16 del: of_nat_add)

lemma digits_value_append:
  "digits_value acc (xs @ ys) =
     (case digits_value acc xs of None \<Rightarrow> None | Some a \<Rightarrow> digits_value a ys)"
  by (induction xs arbitrary: acc) (auto split: option.splits)

lemma digits_value_decimal: "digits_value 0 (decimal n) = Some n"
proof (induction n rule: decimal.induct)
  case (1 n)
  show ?case
  proof (cases "n < 10")
    case True
    then show ?thesis
      by (subst decimal.simps) (simp add: digit_value_digit del: of_nat_add)
  next
    case False
    have m: "n mod 10 < 10" by simp
    from False "1.IH" have "digits_value 0 (decimal (n div 10)) = Some (n div 10)" by simp
    with False show ?thesis
      by (subst decimal.simps) (simp add: digits_value_append digit_value_digit [OF m] del: of_nat_add)
  qed
qed

lemma decimal_head:
  "\<exists>c d cs. decimal n = c # cs \<and> unat c = 0x30 + d \<and> d < 10 \<and> (d = 0 \<longrightarrow> n = 0 \<and> cs = [])"
proof (induction n rule: decimal.induct)
  case (1 n)
  show ?case
  proof (cases "n < 10")
    case True
    then show ?thesis by (subst decimal.simps) (simp add: unat_of_nat16 del: of_nat_add)
  next
    case False
    from False "1.IH" obtain c d cs where
      h: "decimal (n div 10) = c # cs" "unat c = 0x30 + d" "d < 10" "d = 0 \<longrightarrow> n div 10 = 0 \<and> cs = []"
      by blast
    from False have "n div 10 \<noteq> 0" by simp
    with h(4) have "d \<noteq> 0" by blast
    with h(1,2,3) False show ?thesis
      by (subst decimal.simps) (simp del: of_nat_add)
  qed
qed

lemma digit_unit:
  fixes c :: "16 word"
  assumes "unat c = 0x30 + d"
  shows "c \<noteq> 0x2D" "c = 0x30 \<longleftrightarrow> d = 0"
  using assms by (auto simp: word_unat_eq_iff)

lemma decimal_value_decimal: "decimal_value (decimal n) = Some (int n)"
proof -
  from decimal_head [of n] obtain c d cs where
    h: "decimal n = c # cs" "unat c = 0x30 + d" "d < 10" "d = 0 \<longrightarrow> n = 0 \<and> cs = []" by blast
  from h(4) have "\<not> (d = 0 \<and> cs \<noteq> [])" by blast
  then have "decimal_value (c # cs) = map_option int (digits_value 0 (c # cs))"
    by (auto simp add: decimal_value_def digit_unit [OF h(2)] simp del: digits_value.simps)
  then show ?thesis by (simp add: h(1) [symmetric] digits_value_decimal)
qed

lemma decimal_value_minus: "0 < n \<Longrightarrow> decimal_value (0x2D # decimal n) = Some (- int n)"
proof -
  assume n: "0 < n"
  from decimal_head [of n] obtain c d cs where
    h: "decimal n = c # cs" "unat c = 0x30 + d" "d < 10" "d = 0 \<longrightarrow> n = 0 \<and> cs = []" by blast
  with n have "d \<noteq> 0" by blast
  then have "decimal_value (0x2D # c # cs) = map_option (\<lambda>n. - int n) (digits_value 0 (c # cs))"
    by (simp add: decimal_value_def digit_unit [OF h(2)] del: digits_value.simps)
  then show ?thesis by (simp add: h(1) [symmetric] digits_value_decimal)
qed

lemma decimal_value_number:
  "safe_integer n \<Longrightarrow> decimal_value (number_to_string lib n) = Some n"
  by (simp add: number_to_string_def decimal_value_decimal decimal_value_minus)

lemma canonical_example:
  "canonical_form [js ''GET'', js ''/v1/events'', number_to_string lib 1700000000000, js ''d1'', js ''u1'', []]
   = js ''GET'' @ newline # js ''/v1/events'' @ newline # js ''1700000000000'' @ newline
       # js ''d1'' @ newline # js ''u1'' @ [newline]"
  by (simp add: canonical_form_def decimal_example)

section \<open>Facts about the cipher\<close>

lemma length_next_bytes [simp]: "length (next_bytes n rng) = n"
  by (simp add: next_bytes_def)

lemma pad_unpad: "pkcs7_unpad (pkcs7_pad m) = Inr m"
proof -
  define p where "p = 16 - length m mod 16"
  have p: "0 < p" "p \<le> 16" by (auto simp: p_def)
  then have u: "unat (of_nat p :: 8 word) = p" by (simp add: unat_of_nat8)
  have l: "last (m @ replicate p (of_nat p :: 8 word)) = of_nat p" using p by simp
  show ?thesis
    unfolding pkcs7_unpad_def pkcs7_pad_def Let_def p_def [symmetric] l u
    using p by simp
qed

lemma pad_nonempty: "pkcs7_pad m \<noteq> []"
  by (simp add: pkcs7_pad_def Let_def)

lemma length_pad: "length (pkcs7_pad m) mod 16 = 0"
proof -
  have "(length m + (16 - length m mod 16)) mod 16 = 0"
    by (metis add_diff_inverse_nat le_add_diff_inverse2 mod_add_left_eq mod_less_divisor mod_self
        nat_less_le zero_less_numeral less_imp_le not_less)
  then show ?thesis by (simp add: pkcs7_pad_def Let_def)
qed

lemma length_pad_gt: "length m < length (pkcs7_pad m)"
  by (simp add: pkcs7_pad_def Let_def)

lemma xor_block_cancel: "length a = length b \<Longrightarrow> xor_block (xor_block a b) b = a"
  by (induction a b rule: list_induct2) (simp_all add: xor_block_def xor.assoc)

lemma length_xor_block: "length (xor_block a b) = min (length a) (length b)"
  by (simp add: xor_block_def)

lemma cbc_roundtrip:
  assumes "\<forall>b. length b = 16 \<longrightarrow> length (E b) = 16 \<and> D (E b) = b"
  shows "length prev = 16 \<Longrightarrow> \<forall>p \<in> set ps. length p = 16 \<Longrightarrow>
     cbc_decrypt_blocks D prev (cbc_encrypt_blocks E prev ps) = ps"
proof (induction ps arbitrary: prev)
  case Nil then show ?case by simp
next
  case (Cons p ps)
  then have lp: "length p = 16" by simp
  with Cons.prems have lx: "length (xor_block p prev) = 16" by (simp add: length_xor_block)
  with assms have e: "length (E (xor_block p prev)) = 16" "D (E (xor_block p prev)) = xor_block p prev"
    by auto
  from Cons.IH [OF e(1)] Cons.prems(2) have "cbc_decrypt_blocks D (E (xor_block p prev))
     (cbc_encrypt_blocks E (E (xor_block p prev)) ps) = ps" by simp
  with e lp Cons.prems(1) show ?case by (simp add: Let_def xor_block_cancel)
qed

lemma cbc_encrypt_lengths:
  assumes "\<forall>b. length b = 16 \<longrightarrow> length (E b) = 16"
  shows "length prev = 16 \<Longrightarrow> \<forall>p \<in> set ps. length p = 16 \<Longrightarrow>
     \<forall>c \<in> set (cbc_encrypt_blocks E prev ps). length c = 16"
proof (induction ps arbitrary: prev)
  case Nil then show ?case by simp
next
  case (Cons p ps)
  then have "length (xor_block p prev) = 16" by (simp add: length_xor_block)
  with assms have e: "length (E (xor_block p prev)) = 16" by auto
  from Cons.IH [OF e] Cons.prems(2) e show ?case by (simp add: Let_def)
qed

lemma length_cbc_encrypt_blocks: "length (cbc_encrypt_blocks E prev ps) = length ps"
  by (induction ps arbitrary: prev) (simp_all add: Let_def)

lemma blocks_step: "m \<noteq> [] \<Longrightarrow> blocks m = take 16 m # blocks (drop 16 m)"
  by (subst blocks.simps) simp

lemma blocks_Nil: "blocks [] = []"
  by (subst blocks.simps) simp

lemma blocks_lengths: "length m mod 16 = 0 \<Longrightarrow> \<forall>p \<in> set (blocks m). length p = 16"
proof (induction m rule: blocks.induct)
  case (1 m)
  show ?case
  proof (cases "m = []")
    case True then show ?thesis by (simp add: blocks_Nil)
  next
    case False
    with "1.prems" have l: "16 \<le> length m" by (cases "length m < 16") auto
    have "(length m - 16) mod 16 = length m mod 16" by (rule le_mod_geq [OF l, symmetric])
    with "1.prems" have "length (drop 16 m) mod 16 = 0" by (simp only: length_drop)
    from "1.IH" [OF False this] have "\<forall>p \<in> set (blocks (drop 16 m)). length p = 16" .
    moreover have "length (take 16 m) = 16" using l by simp
    ultimately show ?thesis unfolding blocks_step [OF False] by simp
  qed
qed

lemma blocks_concat: "\<forall>c \<in> set cs. length c = 16 \<Longrightarrow> blocks (concat cs) = cs"
proof (induction cs)
  case Nil show ?case by (simp add: blocks_Nil)
next
  case (Cons c cs)
  then have c: "c \<noteq> []" "length c = 16" by auto
  then have "c @ concat cs \<noteq> []" by simp
  from blocks_step [OF this] c Cons show ?case by simp
qed

lemma concat_blocks: "concat (blocks m) = m"
proof (induction m rule: blocks.induct)
  case (1 m)
  show ?case
  proof (cases "m = []")
    case True then show ?thesis by (simp add: blocks_Nil)
  next
    case False
    from "1.IH" [OF False] show ?thesis unfolding blocks_step [OF False] by simp
  qed
qed

lemma blocks_nonempty: "m \<noteq> [] \<Longrightarrow> blocks m \<noteq> []"
  by (simp add: blocks_step)

lemma length_concat16: "\<forall>c \<in> set cs. length c = 16 \<Longrightarrow> length (concat cs) = 16 * length cs"
  by (induction cs) auto

lemma decipher_cipher:
  assumes "block_cipher lib" "length iv = 16"
  shows "decipher_aes_256_cbc lib key iv (hex_encode (cipher_aes_256_cbc lib key iv m)) = Inr m"
proof -
  define E where "E = aes256_encrypt_block lib key"
  define D where "D = aes256_decrypt_block lib key"
  define ps where "ps = blocks (pkcs7_pad m)"
  define cs where "cs = cbc_encrypt_blocks E iv ps"
  have ED: "\<forall>b. length b = 16 \<longrightarrow> length (E b) = 16 \<and> D (E b) = b"
    using assms(1) by (simp add: block_cipher_def E_def D_def)
  have ps: "\<forall>p \<in> set ps. length p = 16" "ps \<noteq> []"
    unfolding ps_def by (rule blocks_lengths [OF length_pad]) (rule blocks_nonempty [OF pad_nonempty])
  have cs: "\<forall>c \<in> set cs. length c = 16"
    unfolding cs_def using ED assms(2) ps(1) by (intro cbc_encrypt_lengths) auto
  have n: "length cs = length ps" by (simp add: cs_def length_cbc_encrypt_blocks)
  with ps(2) have "cs \<noteq> []" by auto
  with cs have ne: "concat cs \<noteq> []" by (cases cs) auto
  have l: "length (concat cs) mod 16 = 0" by (simp add: length_concat16 [OF cs])
  have "cbc_decrypt_blocks D iv cs = ps"
    unfolding cs_def by (rule cbc_roundtrip [OF ED assms(2) ps(1)])
  then have "cbc_decrypt_blocks D iv (blocks (concat cs)) = ps"
    by (simp only: blocks_concat [OF cs])
  then have "concat (cbc_decrypt_blocks D iv (blocks (concat cs))) = pkcs7_pad m"
    by (simp add: ps_def concat_blocks)
  with ne l assms(2) show ?thesis
    by (simp add: decipher_aes_256_cbc_def cipher_aes_256_cbc_def E_def [symmetric]
        D_def [symmetric] ps_def [symmetric] cs_def [symmetric] pad_unpad hex_roundtrip
        length_hex_encode)
qed

lemma decipher_trailing:
  assumes "block_cipher lib" "length iv = 16" "even (length rest)" "hex_decode rest = []"
  shows "decipher_aes_256_cbc lib key iv (hex_encode (cipher_aes_256_cbc lib key iv m) @ rest) = Inr m"
proof -
  have "decipher_aes_256_cbc lib key iv (hex_encode (cipher_aes_256_cbc lib key iv m) @ rest)
        = decipher_aes_256_cbc lib key iv (hex_encode (cipher_aes_256_cbc lib key iv m))"
    using assms(3,4)
    by (simp add: decipher_aes_256_cbc_def hex_decode_append hex_roundtrip length_hex_encode)
  then show ?thesis by (simp add: decipher_cipher [OF assms(1,2)])
qed

lemma length_cipher:
  assumes "block_cipher lib" "length iv = 16"
  shows "length (cipher_aes_256_cbc lib key iv m) = length (pkcs7_pad m)"
proof -
  define E where "E = aes256_encrypt_block lib key"
  define ps where "ps = blocks (pkcs7_pad m)"
  have E: "\<forall>b. length b = 16 \<longrightarrow> length (E b) = 16"
    using assms(1) by (simp add: block_cipher_def E_def)
  have ps: "\<forall>p \<in> set ps. length p = 16"
    unfolding ps_def by (rule blocks_lengths [OF length_pad])
  have "\<forall>c \<in> set (cbc_encrypt_blocks E iv ps). length c = 16"
    by (rule cbc_encrypt_lengths [OF E assms(2) ps])
  then have "length (concat (cbc_encrypt_blocks E iv ps)) = 16 * length ps"
    by (simp add: length_concat16 length_cbc_encrypt_blocks)
  also have "\<dots> = length (concat ps)" by (simp add: length_concat16 [OF ps])
  also have "\<dots> = length (pkcs7_pad m)" by (simp add: ps_def concat_blocks)
  finally show ?thesis by (simp add: cipher_aes_256_cbc_def E_def ps_def)
qed

section \<open>Facts about encrypt and decrypt\<close>

lemma configured_key:
  "key_configured e \<Longrightarrow> \<exists>k. js_or (DATA_ENCRYPTION_KEY e) (ADMIN_TOKEN e) = Some k \<and> k \<noteq> []"
  by (auto simp: key_configured_def js_or_def truthy_def split: option.splits)

lemma not_configured_key:
  "\<not> key_configured e \<Longrightarrow>
     js_or (DATA_ENCRYPTION_KEY e) (ADMIN_TOKEN e) = None
     \<or> js_or (DATA_ENCRYPTION_KEY e) (ADMIN_TOKEN e) = Some []"
  by (auto simp: key_configured_def js_or_def truthy_def split: option.splits)

lemma encrypt_value:
  assumes "key_configured e"
  shows "encrypt lib e rng x =
     Inr (hex_encode (next_bytes 16 rng) @ colon
            # hex_encode (cipher_aes_256_cbc lib (derived_key lib e) (next_bytes 16 rng) (utf8_encode x)),
          skip_bytes 16 rng)"
proof -
  from configured_key [OF assms] obtain k
    where k: "js_or (DATA_ENCRYPTION_KEY e) (ADMIN_TOKEN e) = Some k" "k \<noteq> []" by blast
  then show ?thesis by (simp add: encrypt_def derived_key_def randomBytes_def Let_def)
qed

lemma decrypt_value:
  assumes "key_configured e" "colon \<in> set t"
  shows "decrypt lib e (Some t) =
     (case decipher_aes_256_cbc lib (derived_key lib e)
             (hex_decode (takeWhile (\<lambda>c. c \<noteq> colon) t))
             (tl (dropWhile (\<lambda>c. c \<noteq> colon) t)) of
        Inl error \<Rightarrow> Inr None
      | Inr decrypted \<Rightarrow> Inr (Some (utf8_decode decrypted)))"
proof -
  from configured_key [OF assms(1)] obtain k
    where k: "js_or (DATA_ENCRYPTION_KEY e) (ADMIN_TOKEN e) = Some k" "k \<noteq> []" by blast
  from assms(2) have t: "t \<noteq> []" by auto
  show ?thesis
    using k t assms(2)
    by (simp add: decrypt_def derived_key_def Let_def split_first join_split)
qed

lemma decrypt_returns: "key_configured e \<Longrightarrow> \<exists>r. decrypt lib e t = Inr r"
proof -
  assume k: "key_configured e"
  from configured_key [OF k] obtain s
    where s: "js_or (DATA_ENCRYPTION_KEY e) (ADMIN_TOKEN e) = Some s" "s \<noteq> []" by blast
  show ?thesis
  proof (cases t)
    case None
    with s show ?thesis by (simp add: decrypt_def)
  next
    case (Some u)
    show ?thesis
    proof (cases "colon \<in> set u")
      case True
      show ?thesis unfolding Some decrypt_value [OF k True] by (simp split: sum.split)
    next
      case False
      with s Some show ?thesis by (simp add: decrypt_def)
    qed
  qed
qed

lemma decrypt_envelope:
  assumes "block_cipher lib" "key_configured e" "length iv = 16"
  shows "decrypt lib e (Some (hex_encode iv @ colon
            # hex_encode (cipher_aes_256_cbc lib (derived_key lib e) iv m)))
         = Inr (Some (utf8_decode m))"
proof -
  let ?ct = "cipher_aes_256_cbc lib (derived_key lib e) iv m"
  let ?t = "hex_encode iv @ colon # hex_encode ?ct"
  have c: "colon \<in> set ?t" by simp
  have a: "\<forall>x \<in> set (hex_encode iv). x \<noteq> colon" using colon_notin_hex [of iv] by auto
  have 1: "takeWhile (\<lambda>c. c \<noteq> colon) ?t = hex_encode iv"
    using a by (simp add: takeWhile_tail)
  have 2: "dropWhile (\<lambda>c. c \<noteq> colon) ?t = colon # hex_encode ?ct"
    using a by (simp add: dropWhile_append2)
  show ?thesis
    unfolding decrypt_value [OF assms(2) c] 1 2
    by (simp add: hex_roundtrip decipher_cipher [OF assms(1,3)])
qed

lemma decrypt_of_encrypt_value:
  assumes "block_cipher lib" "key_configured e"
  shows "decrypt_of_encrypt lib e rng x = Inr (Some (utf8_decode (utf8_encode x)))"
  unfolding decrypt_of_encrypt_def encrypt_value [OF assms(2)]
  by (simp add: decrypt_envelope [OF assms])

lemma lone_surrogate_replaced:
  assumes "block_cipher lib" "key_configured e"
  shows "decrypt_of_encrypt lib e rng [0xD800] = Inr (Some [0xFFFD])"
  unfolding decrypt_of_encrypt_value [OF assms]
  by (simp add: is_high_surrogate_def replacement_def in_range_def second_lo_def second_hi_def tail6_def)

lemma envelope_parts:
  "takeWhile (\<lambda>c. c \<noteq> colon) (envelope_shape iv ct) = hex_encode iv"
  "tl (dropWhile (\<lambda>c. c \<noteq> colon) (envelope_shape iv ct)) = hex_encode ct"
  "colon \<in> set (envelope_shape iv ct)"
proof -
  have a: "\<forall>x \<in> set (hex_encode iv). x \<noteq> colon" using colon_notin_hex [of iv] by auto
  show "takeWhile (\<lambda>c. c \<noteq> colon) (envelope_shape iv ct) = hex_encode iv"
    using a by (simp add: envelope_shape_def takeWhile_tail)
  show "tl (dropWhile (\<lambda>c. c \<noteq> colon) (envelope_shape iv ct)) = hex_encode ct"
    using a by (simp add: envelope_shape_def dropWhile_append2)
  show "colon \<in> set (envelope_shape iv ct)" by (simp add: envelope_shape_def)
qed

text \<open>Text after an envelope that the decoder of hexadecimal text does not read is ignored.\<close>

lemma decrypt_ignores_trailing:
  assumes "block_cipher lib" "key_configured e" "length iv = 16"
    and "even (length rest)" "hex_decode rest = []"
  shows "decrypt lib e (Some (envelope_shape iv (cipher_aes_256_cbc lib (derived_key lib e) iv m) @ rest))
         = Inr (Some (utf8_decode m))"
proof -
  let ?ct = "cipher_aes_256_cbc lib (derived_key lib e) iv m"
  let ?t = "envelope_shape iv ?ct @ rest"
  have c: "colon \<in> set ?t" by (simp add: envelope_shape_def)
  have a: "\<forall>x \<in> set (hex_encode iv). x \<noteq> colon" using colon_notin_hex [of iv] by auto
  have 1: "takeWhile (\<lambda>c. c \<noteq> colon) ?t = hex_encode iv"
    using a by (simp add: envelope_shape_def takeWhile_tail)
  have 2: "tl (dropWhile (\<lambda>c. c \<noteq> colon) ?t) = hex_encode ?ct @ rest"
    using a by (simp add: envelope_shape_def dropWhile_append3)
  show ?thesis
    unfolding decrypt_value [OF assms(2) c] 1 2
    by (simp add: hex_roundtrip decipher_trailing [OF assms(1,3,4,5)])
qed

lemma envelope_shape_inj:
  assumes "length iv1 = length iv2" "envelope_shape iv1 ct1 = envelope_shape iv2 ct2"
  shows "iv1 = iv2 \<and> ct1 = ct2"
proof -
  have "length (hex_encode iv1) = length (hex_encode iv2)"
    using assms(1) by (simp add: length_hex_encode)
  with assms(2) have "hex_encode iv1 = hex_encode iv2" "hex_encode ct1 = hex_encode ct2"
    by (simp_all add: envelope_shape_def)
  then show ?thesis by (auto dest: hex_inj)
qed

lemma envelope_not_plaintext:
  assumes "block_cipher lib" "length iv = 16"
  shows "envelope_shape iv (cipher_aes_256_cbc lib key iv (utf8_encode x)) \<noteq> x"
proof
  assume eq: "envelope_shape iv (cipher_aes_256_cbc lib key iv (utf8_encode x)) = x"
  let ?ct = "cipher_aes_256_cbc lib key iv (utf8_encode x)"
  have "length x = 33 + 2 * length ?ct"
    by (subst eq [symmetric]) (simp add: envelope_shape_def length_hex_encode assms(2))
  moreover have "length x < length ?ct"
    using length_utf8_encode [of x] length_pad_gt [of "utf8_encode x"]
    by (simp add: length_cipher [OF assms])
  ultimately show False by simp
qed

lemma block_cipher_toy: "block_cipher toy_lib"
  by (simp add: block_cipher_def toy_lib_def o_def)

lemma key_configured_toy: "key_configured toy_env"
  by (simp add: key_configured_def toy_env_def truthy_def js_def)

lemma decrypt_corrupt: "decrypt toy_lib toy_env (Some (js ''00ff:zz'')) = Inr None"
proof -
  have 2: "colon \<in> set (js ''00ff:zz'')" by (simp add: js_def colon_def)
  have 3: "length (hex_decode (takeWhile (\<lambda>c. c \<noteq> colon) (js ''00ff:zz''))) \<noteq> 16"
    by (simp add: js_def colon_def unhex_def low_byte_def)
  then have "\<exists>err. decipher_aes_256_cbc toy_lib (derived_key toy_lib toy_env)
                  (hex_decode (takeWhile (\<lambda>c. c \<noteq> colon) (js ''00ff:zz'')))
                  (tl (dropWhile (\<lambda>c. c \<noteq> colon) (js ''00ff:zz''))) = Inl err"
    by (simp add: decipher_aes_256_cbc_def)
  then show ?thesis unfolding decrypt_value [OF key_configured_toy 2] by auto
qed

lemma iv_differs: "next_bytes 16 (constant_source 0) \<noteq> next_bytes 16 (constant_source 1)"
proof
  assume "next_bytes 16 (constant_source 0) = next_bytes 16 (constant_source 1)"
  then have "next_bytes 16 (constant_source 0) ! 0 = next_bytes 16 (constant_source 1) ! 0"
    by simp
  then show False by (simp add: next_bytes_def constant_source_def)
qed

lemma put_project_without:
  assumes "\<not> truthy (body_db_password b)"
  shows "put_project lib e rng tbl i b =
     (update_without_password b i tbl, rng,
      case select_by_id (update_without_password b i tbl) i of [] \<Rightarrow> NotFound | row # rows \<Rightarrow> Proceeds row)"
  using assms by (auto simp: put_project_def truthy_def split: option.splits list.splits)

lemma put_project_with:
  assumes "body_db_password b = Some pw" "pw \<noteq> []" "encrypt lib e rng pw = Inr (envl, rng')" "envl \<noteq> []"
  shows "put_project lib e rng tbl i b =
     (update_with_password b (Some envl) i tbl, rng',
      case select_by_id (update_with_password b (Some envl) i tbl) i of [] \<Rightarrow> NotFound | row # rows \<Rightarrow> Proceeds row)"
  using assms by (auto simp: put_project_def truthy_def split: option.splits list.splits)

section \<open>Signatures\<close>

text \<open>
  C1. The signature is the base64 text of the keyed hash, under the secret, of the six
  fields joined by newlines in the order method, path, timestamp, device, user, body: it
  is the encoding of that hash, and decodes to it. The timestamp stands in the message
  as the runtime writes a number: for a safe integer, a time in milliseconds among them,
  the decimal numeral that denotes it; for a number beyond, the text the runtime gives.
\<close>

theorem generateSignature_canonical:
  "generateSignature lib method path timestamp deviceId userId body secretKey =
     base64_encode
       (hmac_sha256 lib (utf8_encode secretKey)
          (utf8_encode (canonical_form
             [method, path, number_to_string lib timestamp, deviceId, userId, body])))
   \<and> lenient_base64_decode
         (generateSignature lib method path timestamp deviceId userId body secretKey) =
       hmac_sha256 lib (utf8_encode secretKey)
         (utf8_encode (canonical_form
            [method, path, number_to_string lib timestamp, deviceId, userId, body]))
   \<and> (safe_integer timestamp \<longrightarrow>
         decimal_value (number_to_string lib timestamp) = Some timestamp)
   \<and> (\<not> safe_integer timestamp \<longrightarrow>
         number_to_string lib timestamp = render_number lib timestamp)"
proof (intro conjI impI)
  show g: "generateSignature lib method path timestamp deviceId userId body secretKey =
     base64_encode
       (hmac_sha256 lib (utf8_encode secretKey)
          (utf8_encode (canonical_form
             [method, path, number_to_string lib timestamp, deviceId, userId, body])))"
    by (simp add: generateSignature_def canonical_form_def)
  show "lenient_base64_decode
         (generateSignature lib method path timestamp deviceId userId body secretKey) =
       hmac_sha256 lib (utf8_encode secretKey)
         (utf8_encode (canonical_form
            [method, path, number_to_string lib timestamp, deviceId, userId, body]))"
    unfolding g by (rule base64_roundtrip)
  show "decimal_value (number_to_string lib timestamp) = Some timestamp"
    if "safe_integer timestamp" using that by (rule decimal_value_number)
  show "number_to_string lib timestamp = render_number lib timestamp"
    if "\<not> safe_integer timestamp" using that by (simp add: number_to_string_def)
qed

theorem generateSignature_canonical_witness:
  "generateSignature toy_lib (js ''GET'') (js ''/v1/events'') 1700000000000 (js ''d1'') (js ''u1'') []
       (js ''k'') =
     base64_encode
       (hmac_sha256 toy_lib (utf8_encode (js ''k''))
          (utf8_encode (js ''GET'' @ newline # js ''/v1/events'' @ newline
             # js ''1700000000000'' @ newline # js ''d1'' @ newline # js ''u1'' @ [newline])))
   \<and> decimal_value (js ''1700000000000'') = Some 1700000000000
   \<and> number_to_string toy_lib (10 ^ 21) = js ''1e+21''"
proof -
  have s: "safe_integer 1700000000000" by (simp add: safe_integer_def)
  have n: "\<not> safe_integer (10 ^ 21)" by (simp add: safe_integer_def)
  have r: "render_number toy_lib (10 ^ 21) = js ''1e+21''" by (simp add: toy_lib_def)
  have c: "canonical_form [js ''GET'', js ''/v1/events'', js ''1700000000000'', js ''d1'', js ''u1'', []]
           = js ''GET'' @ newline # js ''/v1/events'' @ newline # js ''1700000000000'' @ newline
               # js ''d1'' @ newline # js ''u1'' @ [newline]"
    using canonical_example [of toy_lib] by (simp only: decimal_example)
  from generateSignature_canonical
    [of toy_lib "js ''GET''" "js ''/v1/events''" 1700000000000 "js ''d1''" "js ''u1''" "[]" "js ''k''"] s
  have "generateSignature toy_lib (js ''GET'') (js ''/v1/events'') 1700000000000 (js ''d1'') (js ''u1'') []
       (js ''k'') =
     base64_encode
       (hmac_sha256 toy_lib (utf8_encode (js ''k''))
          (utf8_encode (js ''GET'' @ newline # js ''/v1/events'' @ newline
             # js ''1700000000000'' @ newline # js ''d1'' @ newline # js ''u1'' @ [newline])))
     \<and> decimal_value (js ''1700000000000'') = Some 1700000000000"
    by (simp only: decimal_example c simp_thms)
  moreover from generateSignature_canonical
    [of toy_lib "js ''GET''" "js ''/v1/events''" "10 ^ 21" "js ''d1''" "js ''u1''" "[]" "js ''k''"] n r
  have "number_to_string toy_lib (10 ^ 21) = js ''1e+21''" by simp
  ultimately show ?thesis by simp
qed

text \<open>
  C2. A signature verifies against itself: for every method, path, timestamp, device,
  user, body and secret, verify applied to the signature twice returns true.
\<close>

theorem verify_sign_sign:
  "verifySignature lib
     (Some (generateSignature lib method path timestamp deviceId userId body secretKey))
     (Some (generateSignature lib method path timestamp deviceId userId body secretKey))
   = Inr True"
  by (simp add: verifySignature_def Buffer_from_base64_def timingSafeEqual_def)

text \<open>
  With a decoder that reads base64 text the way the encoder writes it, verifying one
  signature against another compares the two keyed hashes.
\<close>

lemma verify_compares_digests:
  assumes "base64_decode lib = lenient_base64_decode"
  shows "verifySignature lib (Some (generateSignature lib m p t d u b k))
           (Some (generateSignature lib m' p' t' d' u' b' k'))
         = Inr (hmac_sha256 lib (utf8_encode k)
                  (utf8_encode (canonical_form [m, p, number_to_string lib t, d, u, b]))
                = hmac_sha256 lib (utf8_encode k')
                    (utf8_encode (canonical_form [m', p', number_to_string lib t', d', u', b'])))"
  by (auto simp: verifySignature_def Buffer_from_base64_def timingSafeEqual_def assms
        generateSignature_def canonical_form_def base64_roundtrip)

text \<open>
  C5. The specification has verify return false when either argument is malformed
  base64, and the comment in the handler of verify says the same of a format error. The
  code leaves the judgement to the decoder of the runtime, and that decoder raises no
  fault on a string: it skips what is not in the alphabet. So \<^verbatim>\<open>AAAA!\<close>, which is no
  base64 text, verifies against \<^verbatim>\<open>AAAA\<close>: both are read as three zero bytes, and verify
  returns true.
\<close>

theorem verify_accepts_malformed_base64:
  "verifySignature toy_lib (Some (js ''AAAA!'')) (Some (js ''AAAA'')) = Inr True"
  by (simp add: verifySignature_def Buffer_from_base64_def timingSafeEqual_def toy_lib_def
      lenient_base64_decode_def js_def unbase64_def pad_char_def)

text \<open>
  What verify does return. It always returns a boolean; when an argument is no string,
  or the two buffers differ in length, the boolean is false; when both arguments decode
  to buffers of the same length, it is the equality of the two buffers. For two strings
  this is the equality of what they decode to.
\<close>

lemma verifySignature_returns:
  "(\<exists>r. verifySignature lib a b = Inr r)
   \<and> ((\<exists>err. Buffer_from_base64 lib a = Inl err) \<or> (\<exists>err. Buffer_from_base64 lib b = Inl err)
        \<longrightarrow> verifySignature lib a b = Inr False)
   \<and> (\<forall>x y. Buffer_from_base64 lib a = Inr x \<and> Buffer_from_base64 lib b = Inr y \<longrightarrow>
         (length x \<noteq> length y \<longrightarrow> verifySignature lib a b = Inr False)
         \<and> (length x = length y \<longrightarrow> verifySignature lib a b = Inr (x = y)))
   \<and> verifySignature lib (Some s) (Some t) = Inr (base64_decode lib s = base64_decode lib t)"
  by (auto simp: verifySignature_def Buffer_from_base64_def timingSafeEqual_def
           split: sum.splits option.splits)

lemma verifySignature_examples:
  "verifySignature toy_lib None (Some (js ''AAAA'')) = Inr False
   \<and> verifySignature toy_lib (Some (js ''AA=='')) (Some (js ''AAAA'')) = Inr False
   \<and> verifySignature toy_lib (Some (js ''AAAA'')) (Some (js ''AAAA'')) = Inr True"
  by (simp add: verifySignature_def Buffer_from_base64_def timingSafeEqual_def toy_lib_def
      lenient_base64_decode_def js_def unbase64_def pad_char_def)

section \<open>Secrets at rest\<close>

text \<open>
  C3, as the specification states it: decrypting what encrypt returned gives the plaintext
  back, for every non-empty string. A string with an unpaired surrogate does not come
  back: written as UTF-8 it becomes U+FFFD, and that is what decrypt returns.
\<close>

theorem roundtrip_counterexample:
  "decrypt_of_encrypt toy_lib toy_env (constant_source 0) [0xD800] \<noteq> Inr (Some [0xD800])"
  by (simp add: lone_surrogate_replaced [OF block_cipher_toy key_configured_toy])

text \<open>
  C3, amended. For every string without an unpaired surrogate (the empty one included),
  and every configured key, decrypting the envelope that encrypt returned gives the
  string back, whatever the IV; the block cipher is assumed to decrypt what it encrypts.
\<close>

theorem roundtrip_well_formed:
  assumes "block_cipher lib" "key_configured e" "well_formed x"
  shows "decrypt_of_encrypt lib e rng x = Inr (Some x)"
  by (simp add: decrypt_of_encrypt_value [OF assms(1,2)] utf8_roundtrip [OF assms(3)])

theorem roundtrip_well_formed_witness:
  "decrypt_of_encrypt toy_lib toy_env (constant_source 0) (js ''s3cret'') = Inr (Some (js ''s3cret''))"
proof -
  have "well_formed (js ''s3cret'')"
    by (simp add: js_def is_high_surrogate_def is_low_surrogate_def)
  from roundtrip_well_formed [OF block_cipher_toy key_configured_toy this] show ?thesis .
qed




text \<open>
  Two calls one after the other take their IVs from different places of the entropy
  source: the first its bytes 0 to 15, the second its bytes 16 to 31.
\<close>

lemma next_after_skip: "next_bytes n (skip_bytes m rng) = map rng [m..<m + n]"
proof -
  have "map rng [m..<m + n] = map rng (map (\<lambda>i. i + m) [0..<n])"
    by (simp only: map_add_upt add.commute)
  then show ?thesis by (simp add: next_bytes_def skip_bytes_def add.commute)
qed

lemma successive_calls:
  assumes "key_configured e"
  shows "\<exists>env1 rng1 env2 rng2.
           encrypt lib e rng x = Inr (env1, rng1) \<and> encrypt lib e rng1 x = Inr (env2, rng2)
           \<and> takeWhile (\<lambda>c. c \<noteq> colon) env1 = hex_encode (map rng [0..<16])
           \<and> takeWhile (\<lambda>c. c \<noteq> colon) env2 = hex_encode (map rng [16..<32])"
  using next_after_skip [of 16 16 rng]
  by (simp add: encrypt_value [OF assms] envelope_shape_def [symmetric] envelope_parts)
     (simp add: next_bytes_def)

text \<open>
  C6, as the specification states it: two envelopes of the same plaintext both decrypt
  back to that plaintext. With an unpaired surrogate in the plaintext neither does: each
  decrypts to the string with U+FFFD in its place.
\<close>

theorem fresh_iv_counterexample:
  "decrypt_of_encrypt toy_lib toy_env (constant_source 1) [0xDC00] \<noteq> Inr (Some [0xDC00])"
  unfolding decrypt_of_encrypt_value [OF block_cipher_toy key_configured_toy]
  by (simp add: is_high_surrogate_def is_low_surrogate_def replacement_def in_range_def
      second_lo_def second_hi_def tail6_def)

text \<open>
  C6, amended. encrypt draws the next 16 bytes of the entropy source as the IV and returns
  the envelope \<^verbatim>\<open>hexIV:hexCiphertext\<close>, leaving the source 16 bytes further. For the
  same plaintext and key, two calls whose IVs differ return different envelopes, and both
  envelopes decrypt to the same string, which is the plaintext whenever the plaintext has
  no unpaired surrogate.
\<close>

theorem encrypt_fresh_iv:
  assumes "block_cipher lib" "key_configured e"
  shows "encrypt lib e rng x =
           Inr (envelope_shape (next_bytes 16 rng)
                  (cipher_aes_256_cbc lib (derived_key lib e) (next_bytes 16 rng) (utf8_encode x)),
                skip_bytes 16 rng)
    \<and> length (next_bytes 16 rng) = 16
    \<and> (\<forall>env1 env2 r1 r2.
          encrypt lib e rng1 x = Inr (env1, r1) \<and> encrypt lib e rng2 x = Inr (env2, r2) \<longrightarrow>
            (next_bytes 16 rng1 \<noteq> next_bytes 16 rng2 \<longrightarrow> env1 \<noteq> env2)
            \<and> decrypt lib e (Some env1) = Inr (Some (utf8_decode (utf8_encode x)))
            \<and> decrypt lib e (Some env2) = Inr (Some (utf8_decode (utf8_encode x)))
            \<and> (well_formed x \<longrightarrow> decrypt lib e (Some env1) = Inr (Some x)
                                   \<and> decrypt lib e (Some env2) = Inr (Some x)))"
proof -
  have d: "decrypt lib e (Some (envelope_shape (next_bytes 16 r)
                  (cipher_aes_256_cbc lib (derived_key lib e) (next_bytes 16 r) (utf8_encode x))))
        = Inr (Some (utf8_decode (utf8_encode x)))" for r
    unfolding envelope_shape_def by (rule decrypt_envelope [OF assms]) simp
  have i: "envelope_shape (next_bytes 16 rng1) c1 \<noteq> envelope_shape (next_bytes 16 rng2) c2"
    if "next_bytes 16 rng1 \<noteq> next_bytes 16 rng2" for c1 c2
    using that envelope_shape_inj [of "next_bytes 16 rng1" "next_bytes 16 rng2" c1 c2] by auto
  show ?thesis
    using d i by (auto simp: encrypt_value [OF assms(2)] envelope_shape_def [symmetric] utf8_roundtrip)
qed

theorem encrypt_fresh_iv_witness:
  "encrypt toy_lib toy_env (constant_source 0) (js ''new'') = Inr (toy_envelope, skip_bytes 16 (constant_source 0))
   \<and> length (next_bytes 16 (constant_source 0)) = 16
   \<and> toy_envelope \<noteq>
       envelope_shape (next_bytes 16 (constant_source 1))
         (cipher_aes_256_cbc toy_lib (derived_key toy_lib toy_env) (next_bytes 16 (constant_source 1))
            (utf8_encode (js ''new'')))
   \<and> decrypt toy_lib toy_env (Some toy_envelope) = Inr (Some (js ''new''))"
proof -
  let ?other = "envelope_shape (next_bytes 16 (constant_source 1))
         (cipher_aes_256_cbc toy_lib (derived_key toy_lib toy_env) (next_bytes 16 (constant_source 1))
            (utf8_encode (js ''new'')))"
  note a = encrypt_fresh_iv [OF block_cipher_toy key_configured_toy,
      of "constant_source 0" "js ''new''" "constant_source 0" "constant_source 1"]
  note b = encrypt_fresh_iv [OF block_cipher_toy key_configured_toy,
      of "constant_source 1" "js ''new''" "constant_source 0" "constant_source 1"]
  from a have 1: "encrypt toy_lib toy_env (constant_source 0) (js ''new'') = Inr (toy_envelope, skip_bytes 16 (constant_source 0))"
    unfolding toy_envelope_def by blast
  from b have 2: "encrypt toy_lib toy_env (constant_source 1) (js ''new'') = Inr (?other, skip_bytes 16 (constant_source 1))"
    by blast
  have w: "well_formed (js ''new'')"
    by (simp add: js_def is_high_surrogate_def is_low_surrogate_def)
  from a 1 2 iv_differs w
  have "toy_envelope \<noteq> ?other \<and> decrypt toy_lib toy_env (Some toy_envelope) = Inr (Some (js ''new''))"
    by blast
  with 1 show ?thesis by simp
qed

text \<open>
  C7. Without a configured key (neither variable holds a non-empty value) encrypt and
  decrypt both throw the configuration error, whatever their argument: decrypt does so
  before it looks at its input, so no \<^verbatim>\<open>null\<close> and no passthrough hides the missing key.
\<close>

theorem missing_key_is_thrown:
  "\<not> key_configured e \<Longrightarrow>
     encrypt lib e rng x = Inl ConfigError \<and> decrypt lib e text = Inl ConfigError"
  using not_configured_key [of e] by (auto simp: encrypt_def decrypt_def)

theorem missing_key_is_thrown_witness:
  "encrypt toy_lib \<lparr>DATA_ENCRYPTION_KEY = None, ADMIN_TOKEN = Some [], DB_PASSWORD = None\<rparr>
     (constant_source 0) (js ''pw'') = Inl ConfigError
   \<and> decrypt toy_lib \<lparr>DATA_ENCRYPTION_KEY = None, ADMIN_TOKEN = Some [], DB_PASSWORD = None\<rparr>
       (Some (js ''legacy'')) = Inl ConfigError"
  using missing_key_is_thrown
    [of "\<lparr>DATA_ENCRYPTION_KEY = None, ADMIN_TOKEN = Some [], DB_PASSWORD = None\<rparr>"
        toy_lib "constant_source 0" "js ''pw''" "Some (js ''legacy'')"]
  by (simp add: key_configured_def truthy_def)

section \<open>Administration\<close>

text \<open>
  C8, as the specification states it: the environment password is substituted if and only
  if the stored password is absent and the tenant is the system tenant, in all three
  operations. In init the system tenant's stored password is present but does not
  decrypt, and the environment password is used all the same.
\<close>

theorem init_fallback_counterexample:
  "truthy (db_password_encrypted corrupt_system_row)
   \<and> post_init toy_lib toy_env [corrupt_system_row] 1 =
       Proceeds \<lparr>projectId = system_project,
                 database_config =
                   \<lparr>host = Some (js ''localhost''), port = Some 5432,
                    database = Some (js ''analytics''), user = Some (js ''postgres''),
                    password = DB_PASSWORD toy_env\<rparr>,
                 tablePrefix = Some (js ''analytics_'')\<rparr>"
proof -
  have s: "select_by_id [corrupt_system_row] 1 = [corrupt_system_row]"
    by (simp add: select_by_id_def corrupt_system_row_def)
  have t: "truthy (Some (js ''00ff:zz''))" by (simp add: truthy_def js_def)
  have n: "\<not> truthy None" by (simp add: truthy_def)
  have v: "js_or (DB_PASSWORD toy_env) None = DB_PASSWORD toy_env"
    by (simp add: toy_env_def js_or_def truthy_def js_def)
  have "post_init toy_lib toy_env [corrupt_system_row] 1 =
       Proceeds \<lparr>projectId = project_id corrupt_system_row,
                 database_config = connection_of corrupt_system_row (DB_PASSWORD toy_env),
                 tablePrefix = table_prefix corrupt_system_row\<rparr>"
    unfolding post_init_def s
    by (simp add: corrupt_system_row_def t n decrypt_corrupt)
  then show ?thesis
    by (simp add: connection_of_def v corrupt_system_row_def t)
qed

text \<open>
  C8, amended. Only the system tenant ever gets the environment password. In
  test-connection and health it is used exactly when the stored password is absent
  (\<^verbatim>\<open>NULL\<close> or empty). In init it is used exactly when the tenant is the system tenant and
  the password obtained from the stored value is absent: nothing is stored, or decrypt
  returns \<^verbatim>\<open>null\<close> or the empty string. For every other tenant an absent password stays
  absent.
\<close>

theorem env_fallback_policy:
  assumes "select_by_id tbl i = p # rows"
  shows "(\<exists>cfg. post_test e tbl i = Proceeds cfg
            \<and> (\<not> truthy (db_password_encrypted p) \<and> project_id p = system_project
                  \<longrightarrow> password cfg = js_or (DB_PASSWORD e) None)
            \<and> (truthy (db_password_encrypted p) \<longrightarrow> password cfg = db_password_encrypted p)
            \<and> (\<not> truthy (db_password_encrypted p) \<and> project_id p \<noteq> system_project
                  \<longrightarrow> password cfg = None))
    \<and> (\<exists>cfg. get_health e tbl i = Proceeds cfg
            \<and> (\<not> truthy (db_password_encrypted p) \<and> project_id p = system_project
                  \<longrightarrow> password (database_config cfg) = js_or (DB_PASSWORD e) None)
            \<and> (truthy (db_password_encrypted p)
                  \<longrightarrow> password (database_config cfg) = db_password_encrypted p)
            \<and> (\<not> truthy (db_password_encrypted p) \<and> project_id p \<noteq> system_project
                  \<longrightarrow> password (database_config cfg) = None))
    \<and> (key_configured e \<longrightarrow>
         (\<exists>d cfg. (if truthy (db_password_encrypted p)
                    then decrypt lib e (db_password_encrypted p) else Inr None) = Inr d
            \<and> post_init lib e tbl i = Proceeds cfg
            \<and> (\<not> truthy d \<and> project_id p = system_project
                  \<longrightarrow> password (database_config cfg) = js_or (DB_PASSWORD e) None)
            \<and> (truthy d \<longrightarrow> password (database_config cfg) = d)
            \<and> (\<not> truthy d \<and> project_id p \<noteq> system_project
                  \<longrightarrow> password (database_config cfg) = None)))"
proof -
  have t: "js_or v None = v" if "truthy v" for v using that by (simp add: js_or_def)
  have f: "js_or v None = None" if "\<not> truthy v" for v using that by (simp add: js_or_def)
  have 1: "\<exists>cfg. post_test e tbl i = Proceeds cfg
            \<and> (\<not> truthy (db_password_encrypted p) \<and> project_id p = system_project
                  \<longrightarrow> password cfg = js_or (DB_PASSWORD e) None)
            \<and> (truthy (db_password_encrypted p) \<longrightarrow> password cfg = db_password_encrypted p)
            \<and> (\<not> truthy (db_password_encrypted p) \<and> project_id p \<noteq> system_project
                  \<longrightarrow> password cfg = None)"
    using assms by (simp add: post_test_def connection_of_def Let_def t f)
  have 2: "\<exists>cfg. get_health e tbl i = Proceeds cfg
            \<and> (\<not> truthy (db_password_encrypted p) \<and> project_id p = system_project
                  \<longrightarrow> password (database_config cfg) = js_or (DB_PASSWORD e) None)
            \<and> (truthy (db_password_encrypted p)
                  \<longrightarrow> password (database_config cfg) = db_password_encrypted p)
            \<and> (\<not> truthy (db_password_encrypted p) \<and> project_id p \<noteq> system_project
                  \<longrightarrow> password (database_config cfg) = None)"
    using assms by (simp add: get_health_def connection_of_def Let_def t f)
  have 3: "\<exists>d cfg. (if truthy (db_password_encrypted p)
                    then decrypt lib e (db_password_encrypted p) else Inr None) = Inr d
            \<and> post_init lib e tbl i = Proceeds cfg
            \<and> (\<not> truthy d \<and> project_id p = system_project
                  \<longrightarrow> password (database_config cfg) = js_or (DB_PASSWORD e) None)
            \<and> (truthy d \<longrightarrow> password (database_config cfg) = d)
            \<and> (\<not> truthy d \<and> project_id p \<noteq> system_project
                  \<longrightarrow> password (database_config cfg) = None)" if k: "key_configured e"
  proof -
    from decrypt_returns [OF k, of lib "db_password_encrypted p"]
    obtain r where r: "decrypt lib e (db_password_encrypted p) = Inr r" by blast
    define d where "d = (if truthy (db_password_encrypted p) then r else None)"
    have "(if truthy (db_password_encrypted p)
             then decrypt lib e (db_password_encrypted p) else Inr None) = Inr d"
      by (simp add: d_def r)
    then show ?thesis
      using assms by (auto simp: post_init_def connection_of_def Let_def t f)
  qed
  from 1 2 3 show ?thesis by blast
qed

theorem env_fallback_policy_witness:
  "(\<exists>cfg. post_test toy_env [tenant_row\<lparr>db_password_encrypted := None\<rparr>] 2 = Proceeds cfg
        \<and> password cfg = None)
   \<and> (\<exists>cfg. get_health toy_env [corrupt_system_row\<lparr>db_password_encrypted := None\<rparr>] 1 = Proceeds cfg
        \<and> password (database_config cfg) = Some (js ''pg''))
   \<and> (\<exists>cfg. post_init toy_lib toy_env [tenant_row\<lparr>db_password_encrypted := Some (js ''00ff:zz'')\<rparr>] 2
          = Proceeds cfg
        \<and> password (database_config cfg) = None)"
proof -
  let ?t = "tenant_row\<lparr>db_password_encrypted := None\<rparr>"
  let ?s = "corrupt_system_row\<lparr>db_password_encrypted := None\<rparr>"
  let ?c = "tenant_row\<lparr>db_password_encrypted := Some (js ''00ff:zz'')\<rparr>"
  have n: "\<not> truthy None" and c: "truthy (Some (js ''00ff:zz''))" by (simp_all add: truthy_def js_def)
  have ne: "js ''shop'' \<noteq> system_project" by (simp add: js_def system_project_def)
  have pg: "js_or (DB_PASSWORD toy_env) None = Some (js ''pg'')"
    by (simp add: toy_env_def js_or_def truthy_def js_def)
  have 1: "select_by_id [?t] 2 = ?t # []" and 2: "select_by_id [?s] 1 = ?s # []"
    and 3: "select_by_id [?c] 2 = ?c # []"
    by (simp_all add: select_by_id_def tenant_row_def corrupt_system_row_def)
  from env_fallback_policy [OF 1, of toy_env toy_lib] n ne
  have "\<exists>cfg. post_test toy_env [?t] 2 = Proceeds cfg \<and> password cfg = None"
    by (simp add: tenant_row_def)
  moreover from env_fallback_policy [OF 2, of toy_env toy_lib] n pg
  have "\<exists>cfg. get_health toy_env [?s] 1 = Proceeds cfg
        \<and> password (database_config cfg) = Some (js ''pg'')"
    by (simp add: corrupt_system_row_def)
  moreover from env_fallback_policy [OF 3, of toy_env toy_lib] c ne key_configured_toy decrypt_corrupt n
  have "\<exists>cfg. post_init toy_lib toy_env [?c] 2 = Proceeds cfg
        \<and> password (database_config cfg) = None"
    by (simp add: tenant_row_def)
  ultimately show ?thesis by blast
qed

text \<open>
  C9. An update without a password leaves \<^verbatim>\<open>db_password_encrypted\<close> of the matched row as
  it was and sets the seven other columns to the values of the request; an update with a
  password sets the column to what encrypt returns for it, along with the seven others.
  Rows with another id are not touched.
\<close>

theorem put_project_password_column:
  "(\<not> truthy (body_db_password b) \<longrightarrow>
      length (fst (put_project lib e rng tbl i b)) = length tbl
      \<and> (\<forall>k < length tbl.
            (id_col (tbl ! k) = i \<longrightarrow>
               db_password_encrypted (fst (put_project lib e rng tbl i b) ! k)
                 = db_password_encrypted (tbl ! k)
               \<and> seven_columns_set b (fst (put_project lib e rng tbl i b) ! k))
            \<and> (id_col (tbl ! k) \<noteq> i \<longrightarrow> fst (put_project lib e rng tbl i b) ! k = tbl ! k)))
   \<and> (key_configured e \<and> body_db_password b = Some pw \<and> pw \<noteq> [] \<longrightarrow>
        (\<exists>envl rng'. encrypt lib e rng pw = Inr (envl, rng')
           \<and> length (fst (put_project lib e rng tbl i b)) = length tbl
           \<and> (\<forall>k < length tbl.
                 (id_col (tbl ! k) = i \<longrightarrow>
                    db_password_encrypted (fst (put_project lib e rng tbl i b) ! k) = Some envl
                    \<and> seven_columns_set b (fst (put_project lib e rng tbl i b) ! k))
                 \<and> (id_col (tbl ! k) \<noteq> i \<longrightarrow> fst (put_project lib e rng tbl i b) ! k = tbl ! k))))"
proof -
  have a: ?thesis if "\<not> truthy (body_db_password b)"
  proof -
    from that have "\<not> (body_db_password b = Some pw \<and> pw \<noteq> [])" by (auto simp: truthy_def)
    then show ?thesis
      unfolding put_project_without [OF that]
      by (auto simp: update_without_password_def seven_columns_set_def)
  qed
  have b: ?thesis if t: "truthy (body_db_password b)"
  proof (cases "key_configured e \<and> body_db_password b = Some pw \<and> pw \<noteq> []")
    case False
    with t show ?thesis by blast
  next
    case True
    let ?envl = "envelope_shape (next_bytes 16 rng)
                  (cipher_aes_256_cbc lib (derived_key lib e) (next_bytes 16 rng) (utf8_encode pw))"
    have enc: "encrypt lib e rng pw = Inr (?envl, skip_bytes 16 rng)"
      using True by (simp add: encrypt_value envelope_shape_def)
    have ne: "?envl \<noteq> []" by (simp add: envelope_shape_def)
    from True have p: "body_db_password b = Some pw" "pw \<noteq> []" by auto
    show ?thesis
      unfolding put_project_with [OF p enc ne] using t enc
      by (auto simp: update_with_password_def seven_columns_set_def)
  qed
  from a b show ?thesis by blast
qed

theorem put_project_password_column_witness:
  "fst (put_project toy_lib toy_env (constant_source 0) [tenant_row] 2 rename_body) ! 0
     = tenant_row\<lparr>project_name := Some (js ''Shop 2''), db_host := Some (js ''db2.internal''),
          db_port := Some 5433, db_name := Some (js ''shop2''), db_user := Some (js ''shop2''),
          table_prefix := Some (js ''a_''), is_active := Some False\<rparr>
   \<and> (\<exists>envl rng'. encrypt toy_lib toy_env (constant_source 0) (js ''new'') = Inr (envl, rng')
        \<and> db_password_encrypted
             (fst (put_project toy_lib toy_env (constant_source 0) [tenant_row] 2
                     (rename_body\<lparr>body_db_password := Some (js ''new'')\<rparr>)) ! 0) = Some envl)"
proof -
  have n: "\<not> truthy (body_db_password rename_body)" by (simp add: rename_body_def truthy_def)
  have i: "id_col ([tenant_row] ! 0) = 2" by (simp add: tenant_row_def)
  from put_project_password_column [of rename_body toy_lib toy_env "constant_source 0" "[tenant_row]" 2 "[]"] n i
  have "db_password_encrypted (fst (put_project toy_lib toy_env (constant_source 0) [tenant_row] 2 rename_body) ! 0)
          = db_password_encrypted tenant_row
        \<and> seven_columns_set rename_body (fst (put_project toy_lib toy_env (constant_source 0) [tenant_row] 2 rename_body) ! 0)"
    by simp
  moreover have "id_col (fst (put_project toy_lib toy_env (constant_source 0) [tenant_row] 2 rename_body) ! 0) = 2"
      "project_id (fst (put_project toy_lib toy_env (constant_source 0) [tenant_row] 2 rename_body) ! 0) = js ''shop''"
    by (simp_all add: put_project_without [OF n] update_without_password_def tenant_row_def)
  ultimately have 1: "fst (put_project toy_lib toy_env (constant_source 0) [tenant_row] 2 rename_body) ! 0
     = tenant_row\<lparr>project_name := Some (js ''Shop 2''), db_host := Some (js ''db2.internal''),
          db_port := Some 5433, db_name := Some (js ''shop2''), db_user := Some (js ''shop2''),
          table_prefix := Some (js ''a_''), is_active := Some False\<rparr>"
    by (simp add: seven_columns_set_def rename_body_def tenant_row_def project.equality)
  have p: "body_db_password (rename_body\<lparr>body_db_password := Some (js ''new'')\<rparr>) = Some (js ''new'')"
      "js ''new'' \<noteq> []" by (simp_all add: js_def)
  from put_project_password_column [of "rename_body\<lparr>body_db_password := Some (js ''new'')\<rparr>"
      toy_lib toy_env "constant_source 0" "[tenant_row]" 2 "js ''new''"] p key_configured_toy i
  have 2: "\<exists>envl rng'. encrypt toy_lib toy_env (constant_source 0) (js ''new'') = Inr (envl, rng')
        \<and> db_password_encrypted
             (fst (put_project toy_lib toy_env (constant_source 0) [tenant_row] 2
                     (rename_body\<lparr>body_db_password := Some (js ''new'')\<rparr>)) ! 0) = Some envl"
    by (simp del: One_nat_def) blast
  from 1 2 show ?thesis by blast
qed

text \<open>
  C10. test-connection and health pass a stored password on as it is, without decrypting
  it, while init passes on what decrypt returns. For a password stored as the envelope
  that encrypt returned, test-connection and health therefore connect with the envelope,
  which differs from the plaintext, and init connects with the plaintext.
\<close>

theorem stored_password_verbatim:
  assumes "select_by_id tbl i = p # rows" "truthy (db_password_encrypted p)"
  shows "(\<exists>cfg. post_test e tbl i = Proceeds cfg \<and> password cfg = db_password_encrypted p)
    \<and> (\<exists>cfg. get_health e tbl i = Proceeds cfg
          \<and> password (database_config cfg) = db_password_encrypted p)
    \<and> (key_configured e \<longrightarrow>
         (\<exists>d cfg. decrypt lib e (db_password_encrypted p) = Inr d
            \<and> post_init lib e tbl i = Proceeds cfg
            \<and> (truthy d \<longrightarrow> password (database_config cfg) = d)))
    \<and> (block_cipher lib \<and> key_configured e \<and> well_formed pw \<and> pw \<noteq> []
          \<and> encrypt lib e rng pw = Inr (envl, rng') \<and> db_password_encrypted p = Some envl \<longrightarrow>
         envl \<noteq> pw
         \<and> (\<exists>cfg. post_test e tbl i = Proceeds cfg \<and> password cfg = Some envl)
         \<and> (\<exists>cfg. get_health e tbl i = Proceeds cfg \<and> password (database_config cfg) = Some envl)
         \<and> (\<exists>cfg. post_init lib e tbl i = Proceeds cfg
               \<and> password (database_config cfg) = Some pw))"
proof -
  have t: "js_or v None = v" if "truthy v" for v using that by (simp add: js_or_def)
  have 1: "\<exists>cfg. post_test e tbl i = Proceeds cfg \<and> password cfg = db_password_encrypted p"
    using assms by (simp add: post_test_def connection_of_def Let_def t)
  have 2: "\<exists>cfg. get_health e tbl i = Proceeds cfg
          \<and> password (database_config cfg) = db_password_encrypted p"
    using assms by (simp add: get_health_def connection_of_def Let_def t)
  have 3: "\<exists>d cfg. decrypt lib e (db_password_encrypted p) = Inr d
            \<and> post_init lib e tbl i = Proceeds cfg
            \<and> (truthy d \<longrightarrow> password (database_config cfg) = d)" if k: "key_configured e"
  proof -
    from decrypt_returns [OF k, of lib "db_password_encrypted p"]
    obtain r where r: "decrypt lib e (db_password_encrypted p) = Inr r" by blast
    then show ?thesis
      using assms by (auto simp: post_init_def connection_of_def Let_def t)
  qed
  have 4: "envl \<noteq> pw
         \<and> (\<exists>cfg. post_init lib e tbl i = Proceeds cfg
               \<and> password (database_config cfg) = Some pw)"
    if h: "block_cipher lib" "key_configured e" "well_formed pw" "pw \<noteq> []"
          "encrypt lib e rng pw = Inr (envl, rng')" "db_password_encrypted p = Some envl"
  proof -
    from h(5) have envl: "envl = envelope_shape (next_bytes 16 rng)
        (cipher_aes_256_cbc lib (derived_key lib e) (next_bytes 16 rng) (utf8_encode pw))"
      by (simp add: encrypt_value [OF h(2)] envelope_shape_def)
    then have ne: "envl \<noteq> pw"
      using envelope_not_plaintext [OF h(1), of "next_bytes 16 rng" "derived_key lib e" pw] by simp
    have "decrypt lib e (Some envl) = Inr (Some pw)"
      unfolding envl envelope_shape_def
      using decrypt_envelope [OF h(1,2), of "next_bytes 16 rng" "utf8_encode pw"]
      by (simp add: utf8_roundtrip [OF h(3)])
    moreover have "truthy (Some pw)" using h(4) by (simp add: truthy_def)
    ultimately have "\<exists>cfg. post_init lib e tbl i = Proceeds cfg
               \<and> password (database_config cfg) = Some pw"
      using assms h(6) by (simp add: post_init_def connection_of_def Let_def t)
    with ne show ?thesis by simp
  qed
  from 1 2 3 4 show ?thesis by (metis (no_types, lifting))
qed

theorem stored_password_verbatim_witness:
  "toy_envelope \<noteq> js ''new''
   \<and> (\<exists>cfg. post_test toy_env [encrypted_row toy_envelope] 2 = Proceeds cfg
         \<and> password cfg = Some toy_envelope)
   \<and> (\<exists>cfg. get_health toy_env [encrypted_row toy_envelope] 2 = Proceeds cfg
         \<and> password (database_config cfg) = Some toy_envelope)
   \<and> (\<exists>cfg. post_init toy_lib toy_env [encrypted_row toy_envelope] 2 = Proceeds cfg
         \<and> password (database_config cfg) = Some (js ''new''))"
proof -
  have s: "select_by_id [encrypted_row toy_envelope] 2 = encrypted_row toy_envelope # []"
    by (simp add: select_by_id_def encrypted_row_def tenant_row_def)
  have p: "db_password_encrypted (encrypted_row toy_envelope) = Some toy_envelope"
    by (simp add: encrypted_row_def)
  have t: "truthy (db_password_encrypted (encrypted_row toy_envelope))"
    unfolding p by (simp add: truthy_def toy_envelope_def envelope_shape_def)
  have w: "well_formed (js ''new'')" "js ''new'' \<noteq> []"
    by (simp_all add: js_def is_high_surrogate_def is_low_surrogate_def)
  have e: "encrypt toy_lib toy_env (constant_source 0) (js ''new'') = Inr (toy_envelope, skip_bytes 16 (constant_source 0))"
    by (simp add: encrypt_value [OF key_configured_toy] toy_envelope_def envelope_shape_def)
  from stored_password_verbatim [OF s t, of toy_env toy_lib "js ''new''" "constant_source 0" toy_envelope
      "skip_bytes 16 (constant_source 0)"] block_cipher_toy key_configured_toy w e p
  show ?thesis by blast
qed

end
